theory Spec2Isabelle
  imports Complex_Main
begin

section \<open>Values\<close>

text \<open>
  The session core of \<^verbatim>\<open>rpc.go\<close> works on Go values of type \<^verbatim>\<open>interface{}\<close>.
  What \<^verbatim>\<open>encoding/json\<close> decodes into such a value is \<^verbatim>\<open>nil\<close>, a \<^verbatim>\<open>bool\<close>, a
  \<^verbatim>\<open>float64\<close>, a \<^verbatim>\<open>string\<close>, a \<^verbatim>\<open>[]interface{}\<close> or a \<^verbatim>\<open>map[string]interface{}\<close>; the
  type switches and type assertions of the code tell exactly these apart. A dispatcher may
  return a value of any other dynamic type (a struct, a \<^verbatim>\<open>[]string\<close>, an \<^verbatim>\<open>int\<close>, a channel):
  the code treats all of them alike, as being none of the above, so one constructor
  \<open>Native\<close> stands for them; it carries what \<^verbatim>\<open>json.Marshal\<close> says about the value, \<open>None\<close>
  when it can be encoded and the error text otherwise.

  A \<^verbatim>\<open>float64\<close> decoded from JSON is a finite rational, so numbers are rationals here. A
  map is an association list, read by \<^const>\<open>map_of\<close>; the order of the list is the order in
  which \<^verbatim>\<open>range\<close> happens to visit the map, which Go leaves open.
\<close>

datatype jvalue =
    JNull
  | JBool bool
  | JNumber rat
  | JString string
  | JArray "jvalue list"
  | JObject "(string \<times> jvalue) list"
  | Native "string option"

text \<open>
  \<^verbatim>\<open>int(f)\<close> on a \<^verbatim>\<open>float64\<close> discards the fraction (truncation towards zero). Go's \<^verbatim>\<open>int\<close>
  is modelled by \<^typ>\<open>int\<close>: the only arithmetic on it is \<^verbatim>\<open>NextExportID++\<close>, which would need
  \<open>2\<^sup>6\<^sup>3\<close> pushes in one session to leave the range, and the conversion of a number whose
  integer part is outside the range, which Go leaves to the implementation.
\<close>

definition go_int :: "rat \<Rightarrow> int" where
  "go_int f = (if 0 \<le> f then \<lfloor>f\<rfloor> else \<lceil>f\<rceil>)"

text \<open>The verb \<^verbatim>\<open>%d\<close> of \<^verbatim>\<open>fmt.Errorf\<close>: the decimal digits, after a minus sign if negative.\<close>

function nat_digits :: "nat \<Rightarrow> string" where
  "nat_digits n =
     (if n < 10 then [''0123456789'' ! n]
      else nat_digits (n div 10) @ [''0123456789'' ! (n mod 10)])"
  by pat_completeness auto
termination
  by (relation "measure id") auto

declare nat_digits.simps [simp del]

definition itoa :: "int \<Rightarrow> string" where
  "itoa i = (if i < 0 then CHR ''-'' # nat_digits (nat (- i)) else nat_digits (nat i))"

text \<open>\<^verbatim>\<open>fmt.Errorf("pipeline reference to non-existent export: %d", refExportID)\<close>\<close>

definition errNonExistentExport :: "int \<Rightarrow> string" where
  "errNonExistentExport refExportID =
     ''pipeline reference to non-existent export: '' @ itoa refExportID"

text \<open>
  \<^verbatim>\<open>json.RawMessage\<close>: bytes that are meant to hold one JSON document. \<open>Encoded v\<close> are the
  bytes that \<^verbatim>\<open>json.Marshal\<close> writes for \<open>v\<close>; \<open>Malformed e\<close> are bytes that
  \<^verbatim>\<open>json.Unmarshal\<close> refuses with the error text \<open>e\<close>.
\<close>

datatype RawMessage = Encoded "jvalue" | Malformed string

fun Unmarshal :: "RawMessage \<Rightarrow> string + jvalue" where
  "Unmarshal (Encoded v) = Inr v"
| "Unmarshal (Malformed e) = Inl e"

text \<open>
  \<^verbatim>\<open>json.Marshal\<close> fails exactly when the tree holds a value it cannot encode; the error is
  that of the first such value it meets.
\<close>

fun marshal_error :: "jvalue \<Rightarrow> string option"
  and marshal_error_elems :: "jvalue list \<Rightarrow> string option"
  and marshal_error_fields :: "(string \<times> jvalue) list \<Rightarrow> string option" where
  "marshal_error (JArray xs) = marshal_error_elems xs"
| "marshal_error (JObject kvs) = marshal_error_fields kvs"
| "marshal_error (Native e) = e"
| "marshal_error JNull = None"
| "marshal_error (JBool b) = None"
| "marshal_error (JNumber f) = None"
| "marshal_error (JString str) = None"
| "marshal_error_elems [] = None"
| "marshal_error_elems (x # xs) =
     (case marshal_error x of Some e \<Rightarrow> Some e | None \<Rightarrow> marshal_error_elems xs)"
| "marshal_error_fields [] = None"
| "marshal_error_fields (kv # kvs) =
     (case marshal_error (snd kv) of Some e \<Rightarrow> Some e | None \<Rightarrow> marshal_error_fields kvs)"

definition Marshal :: "jvalue \<Rightarrow> string + RawMessage" where
  "Marshal v = (case marshal_error v of Some e \<Rightarrow> Inl e | None \<Rightarrow> Inr (Encoded v))"

section \<open>Session state\<close>

text \<open>\<^verbatim>\<open>type Operation struct { Method string; Args json.RawMessage }\<close>\<close>

record Operation =
  Method :: string
  Args :: RawMessage

text \<open>
  \<^verbatim>\<open>RpcTarget.Dispatch(method, args) (interface{}, error)\<close> is user code. It may keep state of
  its own (the subscription table of the server-push example), so a target is a state \<open>'t\<close>
  and a dispatch function on it; \<open>Inl\<close> is the returned \<^verbatim>\<open>error\<close>. Through this interface
  the target never sees the session's tables.
\<close>

type_synonym 't RpcTarget = "'t \<Rightarrow> string \<Rightarrow> RawMessage \<Rightarrow> (string + jvalue) \<times> 't"

text \<open>
  \<^verbatim>\<open>SessionData\<close> with its two maps and the counter. \<open>Target\<close> is the state of the target.
  \<open>Dispatched\<close> is not a field of the Go struct: it records every call of
  \<^verbatim>\<open>Target.Dispatch\<close> in order, with the export id on whose behalf it was made, so that
  statements about how often the dispatcher is invoked can be made. The mutex is left out:
  messages of one session are handled one after the other.
\<close>

record 't SessionData =
  PendingResults :: "int \<rightharpoonup> jvalue"
  PendingOperations :: "int \<rightharpoonup> Operation"
  NextExportID :: int
  Target :: 't
  Dispatched :: "(int \<times> string \<times> RawMessage) list"

definition NewSessionData :: "'t \<Rightarrow> 't SessionData" where
  "NewSessionData target =
     \<lparr>PendingResults = Map.empty, PendingOperations = Map.empty, NextExportID = 1,
      Target = target, Dispatched = []\<rparr>"


text \<open>One call of \<^verbatim>\<open>sessionData.Target.Dispatch(method, args)\<close>, made for export \<open>exportID\<close>.\<close>

definition callDispatch ::
  "'t RpcTarget \<Rightarrow> 't SessionData \<Rightarrow> int \<Rightarrow> string \<Rightarrow> RawMessage \<Rightarrow> (string + jvalue) \<times> 't SessionData" where
  "callDispatch dispatch sessionData exportID method args =
     (case dispatch (Target sessionData) method args of
        (res, target') \<Rightarrow>
          (res, sessionData\<lparr>Target := target',
                  Dispatched := Dispatched sessionData @ [(exportID, method, args)]\<rparr>))"

section \<open>Push\<close>

text \<open>
  \<^verbatim>\<open>handlePush\<close>. The data of a push comes out of \<^verbatim>\<open>json.Unmarshal\<close>, so marshalling
  \<^verbatim>\<open>pushArray[3]\<close> succeeds; the code drops the error, and were there one the stored bytes
  would be empty, which \<^verbatim>\<open>json.Unmarshal\<close> refuses later.
\<close>

definition handlePush :: "'t SessionData \<Rightarrow> jvalue \<Rightarrow> 't SessionData" where
  "handlePush sessionData pushData =
     (case pushData of
        JArray pushArray \<Rightarrow>
          if length pushArray = 0 then sessionData
          else
            let exportID = NextExportID sessionData;
                sessionData1 = sessionData\<lparr>NextExportID := NextExportID sessionData + 1\<rparr>
            in
              if length pushArray \<ge> 3 \<and> pushArray ! 0 = JString ''pipeline'' then
                (case pushArray ! 1 of
                   JNumber importIDFloat \<Rightarrow>
                     (case pushArray ! 2 of
                        JArray methodArray \<Rightarrow>
                          if length methodArray > 0 then
                            (case methodArray ! 0 of
                               JString method \<Rightarrow>
                                 let args =
                                   (if length pushArray \<ge> 4 then
                                      (case Marshal (pushArray ! 3) of
                                         Inr argsBytes \<Rightarrow> argsBytes
                                       | Inl err \<Rightarrow> Malformed ''unexpected end of JSON input'')
                                    else Encoded (JArray []))
                                 in sessionData1\<lparr>PendingOperations :=
                                      (PendingOperations sessionData1)
                                        (exportID \<mapsto> \<lparr>Method = method, Args = args\<rparr>)\<rparr>
                             | _ \<Rightarrow> sessionData1)
                          else sessionData1
                      | _ \<Rightarrow> sessionData1)
                 | _ \<Rightarrow> sessionData1)
              else sessionData1
      | _ \<Rightarrow> sessionData)"

section \<open>Path traversal\<close>

text \<open>
  \<^verbatim>\<open>traversePath\<close>: the loop over the path is the recursion over the list. Reading a key the
  map does not have gives \<^verbatim>\<open>nil\<close>.
\<close>

fun traversePath :: "jvalue \<Rightarrow> jvalue list \<Rightarrow> string + jvalue" where
  "traversePath current [] = Inr current"
| "traversePath current (key # path) =
     (case key of
        JString k \<Rightarrow>
          (case current of
             JObject obj \<Rightarrow>
               traversePath (case map_of obj k of Some x \<Rightarrow> x | None \<Rightarrow> JNull) path
           | _ \<Rightarrow> Inl ''cannot traverse string key on non-object'')
      | JNumber k \<Rightarrow>
          (case current of
             JArray arr \<Rightarrow>
               let idx = go_int k in
                 if idx < 0 \<or> idx \<ge> int (length arr) then Inl ''array index out of bounds''
                 else traversePath (arr ! nat idx) path
           | _ \<Rightarrow> Inl ''cannot traverse numeric key on non-array'')
      | _ \<Rightarrow> Inl ''invalid path key type'')"

section \<open>Resolving pipeline references\<close>

text \<open>
  The test that opens \<^verbatim>\<open>resolvePipelineReferences\<close>: a list of at least two elements whose
  first is the string \<^verbatim>\<open>"pipeline"\<close> and whose second is a number is a reference to the
  export with that number.
\<close>

definition pipelineRef :: "jvalue list \<Rightarrow> int option" where
  "pipelineRef v =
     (if length v \<ge> 2 then
        (case v ! 0 of
           JString pipelineStr \<Rightarrow>
             if pipelineStr = ''pipeline'' then
               (case v ! 1 of JNumber refExportIDFloat \<Rightarrow> Some (go_int refExportIDFloat) | _ \<Rightarrow> None)
             else None
         | _ \<Rightarrow> None)
      else None)"

text \<open>
  ``If there's a path, traverse it'': the five lines that follow both the cached and the
  freshly computed result of a reference \<open>v\<close>.
\<close>

definition walkPath :: "jvalue list \<Rightarrow> jvalue \<Rightarrow> string + jvalue" where
  "walkPath v result =
     (if length v \<ge> 3 then
        (case v ! 2 of JArray pathArray \<Rightarrow> traversePath result pathArray | _ \<Rightarrow> Inr result)
      else Inr result)"

text \<open>
  \<^verbatim>\<open>resolvePipelineReferences\<close> calls itself on the arguments of a pending operation, which
  are not part of the value it was given, so nothing bounds the depth of the recursion. The
  first argument is the number of nested calls allowed; \<open>None\<close> says that they did not
  suffice. The session is returned with the outcome, also with an error: what was cached
  before the error stays cached. \<open>resolveElems\<close> and \<open>resolveFields\<close> are the two loops.
\<close>

fun resolvePipelineReferences ::
    "nat \<Rightarrow> 't RpcTarget \<Rightarrow> 't SessionData \<Rightarrow> jvalue \<Rightarrow> ((string + jvalue) \<times> 't SessionData) option"
  and resolveElems ::
    "nat \<Rightarrow> 't RpcTarget \<Rightarrow> 't SessionData \<Rightarrow> jvalue list \<Rightarrow> ((string + jvalue list) \<times> 't SessionData) option"
  and resolveFields ::
    "nat \<Rightarrow> 't RpcTarget \<Rightarrow> 't SessionData \<Rightarrow> (string \<times> jvalue) list
      \<Rightarrow> ((string + (string \<times> jvalue) list) \<times> 't SessionData) option" where
  "resolvePipelineReferences 0 dispatch sessionData val = None"
| "resolvePipelineReferences (Suc n) dispatch sessionData val =
     (case val of
        JArray v \<Rightarrow>
          (case pipelineRef v of
             Some refExportID \<Rightarrow>
               (case PendingResults sessionData refExportID of
                  Some result \<Rightarrow> Some (walkPath v result, sessionData)
                | None \<Rightarrow>
                    (case PendingOperations sessionData refExportID of
                       Some operation \<Rightarrow>
                         (case Unmarshal (Args operation) of
                            Inl err \<Rightarrow> Some (Inl err, sessionData)
                          | Inr args \<Rightarrow>
                              (case resolvePipelineReferences n dispatch sessionData args of
                                 None \<Rightarrow> None
                               | Some (Inl err, sessionData1) \<Rightarrow> Some (Inl err, sessionData1)
                               | Some (Inr resolvedArgs, sessionData1) \<Rightarrow>
                                   (case Marshal resolvedArgs of
                                      Inl err \<Rightarrow> Some (Inl err, sessionData1)
                                    | Inr resolvedArgsBytes \<Rightarrow>
                                        (case callDispatch dispatch sessionData1 refExportID
                                                (Method operation) resolvedArgsBytes of
                                           (Inl err, sessionData2) \<Rightarrow> Some (Inl err, sessionData2)
                                         | (Inr result, sessionData2) \<Rightarrow>
                                             Some (walkPath v result,
                                               sessionData2\<lparr>
                                                 PendingResults :=
                                                   (PendingResults sessionData2)(refExportID \<mapsto> result),
                                                 PendingOperations :=
                                                   (PendingOperations sessionData2)(refExportID := None)\<rparr>)))))
                     | None \<Rightarrow>
                         Some (Inl (errNonExistentExport refExportID), sessionData)))
           | None \<Rightarrow>
               (case resolveElems n dispatch sessionData v of
                  None \<Rightarrow> None
                | Some (Inl err, sessionData1) \<Rightarrow> Some (Inl err, sessionData1)
                | Some (Inr resolved, sessionData1) \<Rightarrow> Some (Inr (JArray resolved), sessionData1)))
      | JObject v \<Rightarrow>
          (case resolveFields n dispatch sessionData v of
             None \<Rightarrow> None
           | Some (Inl err, sessionData1) \<Rightarrow> Some (Inl err, sessionData1)
           | Some (Inr resolved, sessionData1) \<Rightarrow> Some (Inr (JObject resolved), sessionData1))
      | _ \<Rightarrow> Some (Inr val, sessionData))"
| "resolveElems n dispatch sessionData [] = Some (Inr [], sessionData)"
| "resolveElems n dispatch sessionData (elem # rest) =
     (case resolvePipelineReferences n dispatch sessionData elem of
        None \<Rightarrow> None
      | Some (Inl err, sessionData1) \<Rightarrow> Some (Inl err, sessionData1)
      | Some (Inr resolvedElem, sessionData1) \<Rightarrow>
          (case resolveElems n dispatch sessionData1 rest of
             None \<Rightarrow> None
           | Some (Inl err, sessionData2) \<Rightarrow> Some (Inl err, sessionData2)
           | Some (Inr resolved, sessionData2) \<Rightarrow> Some (Inr (resolvedElem # resolved), sessionData2)))"
| "resolveFields n dispatch sessionData [] = Some (Inr [], sessionData)"
| "resolveFields n dispatch sessionData (kv # rest) =
     (case resolvePipelineReferences n dispatch sessionData (snd kv) of
        None \<Rightarrow> None
      | Some (Inl err, sessionData1) \<Rightarrow> Some (Inl err, sessionData1)
      | Some (Inr resolvedVal, sessionData1) \<Rightarrow>
          (case resolveFields n dispatch sessionData1 rest of
             None \<Rightarrow> None
           | Some (Inl err, sessionData2) \<Rightarrow> Some (Inl err, sessionData2)
           | Some (Inr resolved, sessionData2) \<Rightarrow>
               Some (Inr ((fst kv, resolvedVal) # resolved), sessionData2)))"

section \<open>Pull\<close>

definition createErrorResponse :: "int \<Rightarrow> string \<Rightarrow> string \<Rightarrow> jvalue" where
  "createErrorResponse exportID errorType message =
     JArray [JString ''reject'', JNumber (of_int exportID),
             JArray [JString ''error'', JString errorType, JString message]]"

text \<open>
  The test of \<^verbatim>\<open>handlePull\<close> for a stored error: a list of at least two elements whose first
  is the string \<^verbatim>\<open>"error"\<close>.
\<close>

definition isErrorArray :: "jvalue \<Rightarrow> bool" where
  "isErrorArray result =
     (case result of
        JArray errArray \<Rightarrow> length errArray \<ge> 2 \<and> errArray ! 0 = JString ''error''
      | _ \<Rightarrow> False)"

text \<open>
  \<^verbatim>\<open>handlePull\<close>; its \<^verbatim>\<open>error\<close> result is always \<^verbatim>\<open>nil\<close> and is left out. The first
  argument bounds the recursion of the resolver, as above.
\<close>

definition handlePull ::
  "nat \<Rightarrow> 't RpcTarget \<Rightarrow> 't SessionData \<Rightarrow> int \<Rightarrow> (jvalue \<times> 't SessionData) option" where
  "handlePull n dispatch sessionData exportID =
     (case PendingResults sessionData exportID of
        Some result \<Rightarrow>
          let sessionData1 =
                sessionData\<lparr>PendingResults := (PendingResults sessionData)(exportID := None)\<rparr>
          in
            if isErrorArray result then
              Some (JArray [JString ''reject'', JNumber (of_int exportID), result], sessionData1)
            else
              (case result of
                 JArray arr \<Rightarrow>
                   Some (JArray [JString ''resolve'', JNumber (of_int exportID), JArray [result]],
                         sessionData1)
               | _ \<Rightarrow>
                   Some (JArray [JString ''resolve'', JNumber (of_int exportID), result],
                         sessionData1))
      | None \<Rightarrow>
          (case PendingOperations sessionData exportID of
             Some operation \<Rightarrow>
               (case Unmarshal (Args operation) of
                  Inl err \<Rightarrow> Some (createErrorResponse exportID ''ArgumentError'' err, sessionData)
                | Inr args \<Rightarrow>
                    (case resolvePipelineReferences n dispatch sessionData args of
                       None \<Rightarrow> None
                     | Some (Inl err, sessionData1) \<Rightarrow>
                         Some (createErrorResponse exportID ''PipelineError'' err, sessionData1)
                     | Some (Inr resolvedArgs, sessionData1) \<Rightarrow>
                         (case Marshal resolvedArgs of
                            Inl err \<Rightarrow>
                              Some (createErrorResponse exportID ''SerializationError'' err,
                                    sessionData1)
                          | Inr resolvedArgsBytes \<Rightarrow>
                              (case callDispatch dispatch sessionData1 exportID
                                      (Method operation) resolvedArgsBytes of
                                 (res, sessionData2) \<Rightarrow>
                                   let sessionData3 =
                                         sessionData2\<lparr>PendingOperations :=
                                           (PendingOperations sessionData2)(exportID := None)\<rparr>
                                   in
                                     (case res of
                                        Inl err \<Rightarrow>
                                          Some (createErrorResponse exportID ''MethodError'' err,
                                                sessionData3)
                                      | Inr result \<Rightarrow>
                                          let sessionData4 =
                                                sessionData3\<lparr>PendingResults :=
                                                  (PendingResults sessionData3)(exportID \<mapsto> result)\<rparr>
                                          in
                                            (case result of
                                               JArray arr \<Rightarrow>
                                                 Some (JArray [JString ''resolve'',
                                                         JNumber (of_int exportID), JArray [result]],
                                                       sessionData4)
                                             | _ \<Rightarrow>
                                                 Some (JArray [JString ''resolve'',
                                                         JNumber (of_int exportID), result],
                                                       sessionData4)))))))
           | None \<Rightarrow>
               Some (JArray [JString ''reject'', JNumber (of_int exportID),
                       JArray [JString ''error'', JString ''ExportNotFound'',
                               JString ''Export ID not found'']],
                     sessionData)))"

section \<open>Messages\<close>

text \<open>\<^verbatim>\<open>handleRelease\<close> and \<^verbatim>\<open>handleAbort\<close> write a line to the log and return.\<close>

definition handleRelease :: "'t SessionData \<Rightarrow> int \<Rightarrow> int \<Rightarrow> 't SessionData" where
  "handleRelease sessionData exportID refcount = sessionData"

definition handleAbort :: "'t SessionData \<Rightarrow> jvalue \<Rightarrow> 't SessionData" where
  "handleAbort sessionData errorData = sessionData"

datatype handle_error =
    InvalidMessageFormat
  | EmptyMessage
  | InvalidMessageType
  | ResponseMarshalError string

text \<open>
  \<^verbatim>\<open>HandleMessage\<close>, on the JSON document that the text of the message holds (a text that is
  no JSON document gives the error \<^verbatim>\<open>invalid message format\<close> and changes nothing). The
  document is unmarshalled into a \<^verbatim>\<open>[]interface{}\<close>: \<^verbatim>\<open>null\<close> gives the empty slice, and
  anything else that is not a list is an error. \<open>Inr None\<close> is the empty string, no
  response; \<open>Inr (Some r)\<close> is the text that encodes \<open>r\<close>.
\<close>

definition HandleMessage ::
  "nat \<Rightarrow> 't RpcTarget \<Rightarrow> 't SessionData \<Rightarrow> jvalue
    \<Rightarrow> ((handle_error + jvalue option) \<times> 't SessionData) option" where
  "HandleMessage n dispatch sessionData message =
     (case message of
        JNull \<Rightarrow> Some (Inl EmptyMessage, sessionData)
      | JArray msg \<Rightarrow>
          if length msg = 0 then Some (Inl EmptyMessage, sessionData)
          else
            (case msg ! 0 of
               JString messageType \<Rightarrow>
                 if messageType = ''push'' then
                   (if length msg \<ge> 2 then Some (Inr None, handlePush sessionData (msg ! 1))
                    else Some (Inr None, sessionData))
                 else if messageType = ''pull'' then
                   (if length msg \<ge> 2 then
                      (case msg ! 1 of
                         JNumber exportIDFloat \<Rightarrow>
                           (case handlePull n dispatch sessionData (go_int exportIDFloat) of
                              None \<Rightarrow> None
                            | Some (response, sessionData1) \<Rightarrow>
                                (case marshal_error response of
                                   Some err \<Rightarrow> Some (Inl (ResponseMarshalError err), sessionData1)
                                 | None \<Rightarrow> Some (Inr (Some response), sessionData1)))
                       | _ \<Rightarrow> Some (Inr None, sessionData))
                    else Some (Inr None, sessionData))
                 else if messageType = ''release'' then
                   (if length msg \<ge> 3 then
                      (case msg ! 1 of
                         JNumber exportIDFloat \<Rightarrow>
                           (case msg ! 2 of
                              JNumber refcountFloat \<Rightarrow>
                                Some (Inr None,
                                  handleRelease sessionData (go_int exportIDFloat) (go_int refcountFloat))
                            | _ \<Rightarrow> Some (Inr None, sessionData))
                       | _ \<Rightarrow> Some (Inr None, sessionData))
                    else Some (Inr None, sessionData))
                 else if messageType = ''abort'' then
                   (if length msg \<ge> 2 then Some (Inr None, handleAbort sessionData (msg ! 1))
                    else Some (Inr None, sessionData))
                 else Some (Inr None, sessionData)
             | _ \<Rightarrow> Some (Inl InvalidMessageType, sessionData))
      | _ \<Rightarrow> Some (Inl InvalidMessageFormat, sessionData))"

text \<open>
  The loop of both transports in \<^verbatim>\<open>server.go\<close>: the messages are handled in order, an
  error of \<^verbatim>\<open>HandleMessage\<close> is logged and the loop goes on, a response that is not empty is
  sent. The result is the list of responses sent and the session at the end.
\<close>

fun handleMessages ::
  "nat \<Rightarrow> 't RpcTarget \<Rightarrow> 't SessionData \<Rightarrow> jvalue list \<Rightarrow> (jvalue list \<times> 't SessionData) option" where
  "handleMessages n dispatch sessionData [] = Some ([], sessionData)"
| "handleMessages n dispatch sessionData (message # rest) =
     (case HandleMessage n dispatch sessionData message of
        None \<Rightarrow> None
      | Some (res, sessionData1) \<Rightarrow>
          (case handleMessages n dispatch sessionData1 rest of
             None \<Rightarrow> None
           | Some (responses, sessionData2) \<Rightarrow>
               (case res of
                  Inr (Some response) \<Rightarrow> Some (response # responses, sessionData2)
                | _ \<Rightarrow> Some (responses, sessionData2))))"

section \<open>Notions for the statements and their proofs\<close>

subsection \<open>The spec's vocabulary\<close>


text \<open>
  The wrapped value of the spec's outbound grammar (section 6):
  \<^verbatim>\<open>if resolved is a list: [resolved] else resolved\<close>.
\<close>

definition wrappedValue :: "jvalue \<Rightarrow> jvalue" where
  "wrappedValue resolved = (case resolved of JArray l \<Rightarrow> JArray [resolved] | _ \<Rightarrow> resolved)"

text \<open>The reject for an id that is in neither table, as \<^verbatim>\<open>handlePull\<close> builds it.\<close>

definition notFound :: "int \<Rightarrow> jvalue" where
  "notFound exportID =
     JArray [JString ''reject'', JNumber (of_int exportID),
       JArray [JString ''error'', JString ''ExportNotFound'', JString ''Export ID not found'']]"

subsection \<open>Invariants of a session\<close>



subsection \<open>What the resolver does to the tables\<close>

text \<open>
  The resolver touches an id in one way only: it moves a pending operation that has no cached
  result into the cache. \<open>table_step s s'\<close> says that \<open>s'\<close> comes from \<open>s\<close> by such moves; the
  counter is the same.
\<close>

definition table_step :: "'t SessionData \<Rightarrow> 't SessionData \<Rightarrow> bool" where
  "table_step s s' \<longleftrightarrow>
     NextExportID s' = NextExportID s \<and>
     (\<forall>k. (PendingResults s' k = PendingResults s k \<and> PendingOperations s' k = PendingOperations s k) \<or>
          (PendingResults s k = None \<and> PendingOperations s k \<noteq> None \<and>
           PendingResults s' k \<noteq> None \<and> PendingOperations s' k = None))"

text \<open>
  \<open>demands s j val\<close>: resolving \<open>val\<close> in session \<open>s\<close> has to go through export \<open>j\<close>, because
  \<open>val\<close> holds a reference to \<open>j\<close>, or a reference to a pending operation without cached result
  whose arguments demand \<open>j\<close>. The elements of a list that is itself a reference are not looked
  at, as in the code.
\<close>

inductive demands :: "'t SessionData \<Rightarrow> int \<Rightarrow> jvalue \<Rightarrow> bool" for s :: "'t SessionData" and j :: int where
  Ref: "pipelineRef v = Some j \<Longrightarrow> demands s j (JArray v)"
| Via: "pipelineRef v = Some k \<Longrightarrow> PendingResults s k = None
    \<Longrightarrow> PendingOperations s k = Some operation \<Longrightarrow> Unmarshal (Args operation) = Inr args
    \<Longrightarrow> demands s j args \<Longrightarrow> demands s j (JArray v)"
| Elem: "pipelineRef v = None \<Longrightarrow> x \<in> set v \<Longrightarrow> demands s j x \<Longrightarrow> demands s j (JArray v)"
| Field: "kv \<in> set kvs \<Longrightarrow> demands s j (snd kv) \<Longrightarrow> demands s j (JObject kvs)"

text \<open>
  An id \<open>k\<close> is doomed for \<open>j\<close> when it is pending, not cached, and its arguments demand
  \<open>j\<close>. When \<open>j\<close> is doomed for itself (a cycle through \<open>j\<close>), no doomed id is ever dispatched:
  \<open>keeps_doomed s j s'\<close> says that the doomed ids of \<open>s\<close> are as they were in \<open>s'\<close>.
\<close>

definition doomed :: "'t SessionData \<Rightarrow> int \<Rightarrow> int \<Rightarrow> bool" where
  "doomed s j k \<longleftrightarrow>
     PendingResults s k = None \<and>
     (\<exists>operation args. PendingOperations s k = Some operation \<and>
        Unmarshal (Args operation) = Inr args \<and> demands s j args)"

definition keeps_doomed :: "'t SessionData \<Rightarrow> int \<Rightarrow> 't SessionData \<Rightarrow> bool" where
  "keeps_doomed s j s' \<longleftrightarrow>
     (\<forall>k. doomed s j k \<longrightarrow>
        PendingResults s' k = None \<and> PendingOperations s' k = PendingOperations s k)"

text \<open>
  \<open>calls_fresh ok s s'\<close>: the calls of the dispatcher recorded between \<open>s\<close> and \<open>s'\<close> are for
  pairwise different export ids, none of which was cached in \<open>s\<close>; with \<open>ok\<close>, all of them are
  cached in \<open>s'\<close>.
\<close>

definition calls_fresh :: "bool \<Rightarrow> 't SessionData \<Rightarrow> 't SessionData \<Rightarrow> bool" where
  "calls_fresh ok s s' \<longleftrightarrow>
     (\<exists>calls. Dispatched s' = Dispatched s @ calls \<and> distinct (map fst calls) \<and>
        (\<forall>k\<in>fst ` set calls. PendingResults s k = None \<and> (ok \<longrightarrow> PendingResults s' k \<noteq> None)))"

subsection \<open>References that go back\<close>



subsection \<open>Example sessions\<close>

text \<open>
  A target in the manner of the spec's scenarios A and C, the two messages of a client, and
  the sessions that the examples below start from or arrive at.
\<close>

definition exampleTarget :: "unit RpcTarget" where
  "exampleTarget t method args =
     (if method = ''hello'' then (Inr (JString ''Hello, World!''), t)
      else if method = ''getNotes'' then (Inr (JArray [JString ''a'', JString ''b'']), t)
      else (Inl (''method not found: '' @ method), t))"

definition exampleNotes :: jvalue where
  "exampleNotes = JArray [JString ''a'', JString ''b'']"

definition pushCall :: "string \<Rightarrow> jvalue \<Rightarrow> jvalue" where
  "pushCall method args =
     JArray [JString ''push'', JArray [JString ''pipeline'', JNumber 0, JArray [JString method], args]]"

definition pull :: "int \<Rightarrow> jvalue" where
  "pull exportID = JArray [JString ''pull'', JNumber (of_int exportID)]"

definition helloSession :: "unit SessionData" where
  "helloSession =
     \<lparr>PendingResults = Map.empty,
      PendingOperations = [1 \<mapsto> \<lparr>Method = ''hello'', Args = Encoded (JArray [JString ''World''])\<rparr>],
      NextExportID = 2, Target = (), Dispatched = []\<rparr>"

definition helloSessionPulled :: "unit SessionData" where
  "helloSessionPulled =
     \<lparr>PendingResults = [1 \<mapsto> JString ''Hello, World!''],
      PendingOperations = Map.empty,
      NextExportID = 2, Target = (),
      Dispatched = [(1, ''hello'', Encoded (JArray [JString ''World'']))]\<rparr>"



definition diamondSession :: "unit SessionData" where
  "diamondSession =
     \<lparr>PendingResults = Map.empty,
      PendingOperations =
        [1 \<mapsto> \<lparr>Method = ''getNotes'', Args = Encoded (JArray [])\<rparr>,
         2 \<mapsto> \<lparr>Method = ''hello'',
               Args = Encoded (JArray [JArray [JString ''pipeline'', JNumber 1],
                                       JArray [JString ''pipeline'', JNumber 1, JArray [JNumber 0]]])\<rparr>],
      NextExportID = 3, Target = (), Dispatched = []\<rparr>"

definition diamondSessionPulled :: "unit SessionData" where
  "diamondSessionPulled =
     \<lparr>PendingResults = [1 \<mapsto> exampleNotes, 2 \<mapsto> JString ''Hello, World!''],
      PendingOperations = Map.empty,
      NextExportID = 3, Target = (),
      Dispatched = [(1, ''getNotes'', Encoded (JArray [])),
                    (2, ''hello'', Encoded (JArray [exampleNotes, JString ''a'']))]\<rparr>"


section \<open>Lemmas\<close>

subsection \<open>Case analysis of the resolver\<close>

text \<open>
  What a call of the resolver with depth \<open>Suc n\<close> that returns has done: one case for each
  path through \<^verbatim>\<open>resolvePipelineReferences\<close>, and likewise for one round of each loop.
\<close>

lemma resolve_SucE [consumes 1, case_names Leaf Object List Cached Unknown BadArgs ArgsFail MarshalFail DispatchFail Dispatch]:
  assumes "resolvePipelineReferences (Suc n) d s val = Some (res, s')"
  obtains
    (Leaf) "\<forall>v. val \<noteq> JArray v" "\<forall>v. val \<noteq> JObject v" "res = Inr val" "s' = s"
  | (Object) kvs r where "val = JObject kvs" "resolveFields n d s kvs = Some (r, s')"
      "res = map_sum id JObject r"
  | (List) v r where "val = JArray v" "pipelineRef v = None"
      "resolveElems n d s v = Some (r, s')" "res = map_sum id JArray r"
  | (Cached) v k r where "val = JArray v" "pipelineRef v = Some k"
      "PendingResults s k = Some r" "res = walkPath v r" "s' = s"
  | (Unknown) v k where "val = JArray v" "pipelineRef v = Some k"
      "PendingResults s k = None" "PendingOperations s k = None"
      "res = Inl (errNonExistentExport k)" "s' = s"
  | (BadArgs) v k operation e where "val = JArray v" "pipelineRef v = Some k"
      "PendingResults s k = None" "PendingOperations s k = Some operation"
      "Unmarshal (Args operation) = Inl e" "res = Inl e" "s' = s"
  | (ArgsFail) v k operation args e where "val = JArray v" "pipelineRef v = Some k"
      "PendingResults s k = None" "PendingOperations s k = Some operation"
      "Unmarshal (Args operation) = Inr args"
      "resolvePipelineReferences n d s args = Some (Inl e, s')" "res = Inl e"
  | (MarshalFail) v k operation args ra e where "val = JArray v" "pipelineRef v = Some k"
      "PendingResults s k = None" "PendingOperations s k = Some operation"
      "Unmarshal (Args operation) = Inr args"
      "resolvePipelineReferences n d s args = Some (Inr ra, s')" "Marshal ra = Inl e" "res = Inl e"
  | (DispatchFail) v k operation args ra s1 bytes e where "val = JArray v" "pipelineRef v = Some k"
      "PendingResults s k = None" "PendingOperations s k = Some operation"
      "Unmarshal (Args operation) = Inr args"
      "resolvePipelineReferences n d s args = Some (Inr ra, s1)" "Marshal ra = Inr bytes"
      "callDispatch d s1 k (Method operation) bytes = (Inl e, s')" "res = Inl e"
  | (Dispatch) v k operation args ra s1 bytes r s2 where "val = JArray v" "pipelineRef v = Some k"
      "PendingResults s k = None" "PendingOperations s k = Some operation"
      "Unmarshal (Args operation) = Inr args"
      "resolvePipelineReferences n d s args = Some (Inr ra, s1)" "Marshal ra = Inr bytes"
      "callDispatch d s1 k (Method operation) bytes = (Inr r, s2)"
      "s' = s2\<lparr>PendingResults := (PendingResults s2)(k \<mapsto> r),
                 PendingOperations := (PendingOperations s2)(k := None)\<rparr>"
      "res = walkPath v r"
proof (cases val)
  case (JArray v)
  show ?thesis
  proof (cases "pipelineRef v")
    case None
    with assms JArray obtain r where "resolveElems n d s v = Some (r, s')" "res = map_sum id JArray r"
      by (cases "resolveElems n d s v") (auto split: sum.splits)
    with JArray None show ?thesis by (rule List)
  next
    case (Some k)
    note ref = JArray Some
    show ?thesis
    proof (cases "PendingResults s k")
      case (Some r)
      with assms ref show ?thesis by (intro Cached [of v k r]) auto
    next
      case None
      note uncached = None
      show ?thesis
      proof (cases "PendingOperations s k")
        case None
        with assms ref uncached show ?thesis by (intro Unknown [of v k]) auto
      next
        case (Some operation)
        note pending = Some
        show ?thesis
        proof (cases "Unmarshal (Args operation)")
          case (Inl e)
          with assms ref uncached pending show ?thesis by (intro BadArgs [of v k operation e]) auto
        next
          case (Inr args)
          note um = Inr
          from assms ref uncached pending um
          obtain r1 s1 where inner: "resolvePipelineReferences n d s args = Some (r1, s1)"
            by (cases "resolvePipelineReferences n d s args") auto
          show ?thesis
          proof (cases r1)
            case (Inl e)
            with assms ref uncached pending um inner show ?thesis
              by (intro ArgsFail [of v k operation args e]) auto
          next
            case (Inr ra)
            note ok = Inr
            show ?thesis
            proof (cases "Marshal ra")
              case (Inl e)
              with assms ref uncached pending um inner ok show ?thesis
                by (intro MarshalFail [of v k operation args ra e]) auto
            next
              case (Inr bytes)
              note m = Inr
              obtain r2 s2 where call: "callDispatch d s1 k (Method operation) bytes = (r2, s2)"
                by (cases "callDispatch d s1 k (Method operation) bytes")
              show ?thesis
              proof (cases r2)
                case (Inl e)
                with assms ref uncached pending um inner ok m call show ?thesis
                  by (intro DispatchFail [of v k operation args ra s1 bytes e]) auto
              next
                case (Inr r)
                with assms ref uncached pending um inner ok m call show ?thesis
                  by (intro Dispatch [of v k operation args ra s1 bytes r s2]) auto
              qed
            qed
          qed
        qed
      qed
    qed
  qed
next
  case (JObject kvs)
  with assms obtain r where "resolveFields n d s kvs = Some (r, s')" "res = map_sum id JObject r"
    by (cases "resolveFields n d s kvs") (auto split: sum.splits)
  with JObject show ?thesis by (rule Object)
qed (use assms in \<open>auto intro: Leaf\<close>)

lemma resolveElems_ConsE [consumes 1, case_names Fail RestFail Cons]:
  assumes "resolveElems n d s (x # xs) = Some (res, s')"
  obtains
    (Fail) e where "resolvePipelineReferences n d s x = Some (Inl e, s')" "res = Inl e"
  | (RestFail) y s1 e where "resolvePipelineReferences n d s x = Some (Inr y, s1)"
      "resolveElems n d s1 xs = Some (Inl e, s')" "res = Inl e"
  | (Cons) y s1 ys where "resolvePipelineReferences n d s x = Some (Inr y, s1)"
      "resolveElems n d s1 xs = Some (Inr ys, s')" "res = Inr (y # ys)"
proof -
  from assms obtain r1 s1 where 1: "resolvePipelineReferences n d s x = Some (r1, s1)"
    by (cases "resolvePipelineReferences n d s x") auto
  show ?thesis
  proof (cases r1)
    case (Inl e)
    with assms 1 show ?thesis by (intro Fail [of e]) auto
  next
    case (Inr y)
    with assms 1 obtain r2 where 2: "resolveElems n d s1 xs = Some (r2, s')"
      by (cases "resolveElems n d s1 xs") (auto split: sum.splits)
    with assms 1 Inr show ?thesis
      by (cases r2) (auto intro: RestFail Cons)
  qed
qed

lemma resolveFields_ConsE [consumes 1, case_names Fail RestFail Cons]:
  assumes "resolveFields n d s (kv # kvs) = Some (res, s')"
  obtains
    (Fail) e where "resolvePipelineReferences n d s (snd kv) = Some (Inl e, s')" "res = Inl e"
  | (RestFail) y s1 e where "resolvePipelineReferences n d s (snd kv) = Some (Inr y, s1)"
      "resolveFields n d s1 kvs = Some (Inl e, s')" "res = Inl e"
  | (Cons) y s1 ys where "resolvePipelineReferences n d s (snd kv) = Some (Inr y, s1)"
      "resolveFields n d s1 kvs = Some (Inr ys, s')" "res = Inr ((fst kv, y) # ys)"
proof -
  from assms obtain r1 s1 where 1: "resolvePipelineReferences n d s (snd kv) = Some (r1, s1)"
    by (cases "resolvePipelineReferences n d s (snd kv)") auto
  show ?thesis
  proof (cases r1)
    case (Inl e)
    with assms 1 show ?thesis by (intro Fail [of e]) auto
  next
    case (Inr y)
    with assms 1 obtain r2 where 2: "resolveFields n d s1 kvs = Some (r2, s')"
      by (cases "resolveFields n d s1 kvs") (auto split: sum.splits)
    with assms 1 Inr show ?thesis
      by (cases r2) (auto intro: RestFail Cons)
  qed
qed

text \<open>
  Induction over the calls of the resolver. A property of the three functions holds of every
  call that returns if it holds in each of the cases above, given that it holds of the calls
  made in that case.
\<close>

lemma resolve_all_induct:
  fixes d :: "'t RpcTarget"
    and Pv :: "nat \<Rightarrow> 't SessionData \<Rightarrow> jvalue \<Rightarrow> string + jvalue \<Rightarrow> 't SessionData \<Rightarrow> bool"
    and Pe :: "nat \<Rightarrow> 't SessionData \<Rightarrow> jvalue list \<Rightarrow> string + jvalue list \<Rightarrow> 't SessionData \<Rightarrow> bool"
    and Pf :: "nat \<Rightarrow> 't SessionData \<Rightarrow> (string \<times> jvalue) list \<Rightarrow> string + (string \<times> jvalue) list \<Rightarrow> 't SessionData \<Rightarrow> bool"
  assumes Leaf: "\<And>n s val. \<forall>v. val \<noteq> JArray v \<Longrightarrow> \<forall>v. val \<noteq> JObject v \<Longrightarrow> Pv (Suc n) s val (Inr val) s"
    and Object: "\<And>n s kvs r s'. resolveFields n d s kvs = Some (r, s') \<Longrightarrow> Pf n s kvs r s'
        \<Longrightarrow> Pv (Suc n) s (JObject kvs) (map_sum id JObject r) s'"
    and List: "\<And>n s v r s'. pipelineRef v = None \<Longrightarrow> resolveElems n d s v = Some (r, s') \<Longrightarrow> Pe n s v r s'
        \<Longrightarrow> Pv (Suc n) s (JArray v) (map_sum id JArray r) s'"
    and Cached: "\<And>n s v k r. pipelineRef v = Some k \<Longrightarrow> PendingResults s k = Some r
        \<Longrightarrow> Pv (Suc n) s (JArray v) (walkPath v r) s"
    and Unknown: "\<And>n s v k. pipelineRef v = Some k \<Longrightarrow> PendingResults s k = None
        \<Longrightarrow> PendingOperations s k = None
        \<Longrightarrow> Pv (Suc n) s (JArray v) (Inl (errNonExistentExport k)) s"
    and BadArgs: "\<And>n s v k operation e. pipelineRef v = Some k \<Longrightarrow> PendingResults s k = None
        \<Longrightarrow> PendingOperations s k = Some operation \<Longrightarrow> Unmarshal (Args operation) = Inl e
        \<Longrightarrow> Pv (Suc n) s (JArray v) (Inl e) s"
    and ArgsFail: "\<And>n s v k operation args e s'. pipelineRef v = Some k \<Longrightarrow> PendingResults s k = None
        \<Longrightarrow> PendingOperations s k = Some operation \<Longrightarrow> Unmarshal (Args operation) = Inr args
        \<Longrightarrow> resolvePipelineReferences n d s args = Some (Inl e, s') \<Longrightarrow> Pv n s args (Inl e) s'
        \<Longrightarrow> Pv (Suc n) s (JArray v) (Inl e) s'"
    and MarshalFail: "\<And>n s v k operation args ra e s'. pipelineRef v = Some k \<Longrightarrow> PendingResults s k = None
        \<Longrightarrow> PendingOperations s k = Some operation \<Longrightarrow> Unmarshal (Args operation) = Inr args
        \<Longrightarrow> resolvePipelineReferences n d s args = Some (Inr ra, s') \<Longrightarrow> Pv n s args (Inr ra) s'
        \<Longrightarrow> Marshal ra = Inl e
        \<Longrightarrow> Pv (Suc n) s (JArray v) (Inl e) s'"
    and DispatchFail: "\<And>n s v k operation args ra s1 bytes e s'. pipelineRef v = Some k
        \<Longrightarrow> PendingResults s k = None
        \<Longrightarrow> PendingOperations s k = Some operation \<Longrightarrow> Unmarshal (Args operation) = Inr args
        \<Longrightarrow> resolvePipelineReferences n d s args = Some (Inr ra, s1) \<Longrightarrow> Pv n s args (Inr ra) s1
        \<Longrightarrow> Marshal ra = Inr bytes
        \<Longrightarrow> callDispatch d s1 k (Method operation) bytes = (Inl e, s')
        \<Longrightarrow> Pv (Suc n) s (JArray v) (Inl e) s'"
    and Dispatch: "\<And>n s v k operation args ra s1 bytes r s2. pipelineRef v = Some k
        \<Longrightarrow> PendingResults s k = None
        \<Longrightarrow> PendingOperations s k = Some operation \<Longrightarrow> Unmarshal (Args operation) = Inr args
        \<Longrightarrow> resolvePipelineReferences n d s args = Some (Inr ra, s1) \<Longrightarrow> Pv n s args (Inr ra) s1
        \<Longrightarrow> Marshal ra = Inr bytes
        \<Longrightarrow> callDispatch d s1 k (Method operation) bytes = (Inr r, s2)
        \<Longrightarrow> Pv (Suc n) s (JArray v) (walkPath v r)
              (s2\<lparr>PendingResults := (PendingResults s2)(k \<mapsto> r),
                  PendingOperations := (PendingOperations s2)(k := None)\<rparr>)"
    and ElemsNil: "\<And>n s. Pe n s [] (Inr []) s"
    and ElemsFail: "\<And>n s x xs e s'. resolvePipelineReferences n d s x = Some (Inl e, s')
        \<Longrightarrow> Pv n s x (Inl e) s' \<Longrightarrow> Pe n s (x # xs) (Inl e) s'"
    and ElemsRestFail: "\<And>n s x xs y s1 e s'. resolvePipelineReferences n d s x = Some (Inr y, s1)
        \<Longrightarrow> Pv n s x (Inr y) s1 \<Longrightarrow> resolveElems n d s1 xs = Some (Inl e, s')
        \<Longrightarrow> Pe n s1 xs (Inl e) s' \<Longrightarrow> Pe n s (x # xs) (Inl e) s'"
    and ElemsCons: "\<And>n s x xs y s1 ys s'. resolvePipelineReferences n d s x = Some (Inr y, s1)
        \<Longrightarrow> Pv n s x (Inr y) s1 \<Longrightarrow> resolveElems n d s1 xs = Some (Inr ys, s')
        \<Longrightarrow> Pe n s1 xs (Inr ys) s' \<Longrightarrow> Pe n s (x # xs) (Inr (y # ys)) s'"
    and FieldsNil: "\<And>n s. Pf n s [] (Inr []) s"
    and FieldsFail: "\<And>n s kv kvs e s'. resolvePipelineReferences n d s (snd kv) = Some (Inl e, s')
        \<Longrightarrow> Pv n s (snd kv) (Inl e) s' \<Longrightarrow> Pf n s (kv # kvs) (Inl e) s'"
    and FieldsRestFail: "\<And>n s kv kvs y s1 e s'. resolvePipelineReferences n d s (snd kv) = Some (Inr y, s1)
        \<Longrightarrow> Pv n s (snd kv) (Inr y) s1 \<Longrightarrow> resolveFields n d s1 kvs = Some (Inl e, s')
        \<Longrightarrow> Pf n s1 kvs (Inl e) s' \<Longrightarrow> Pf n s (kv # kvs) (Inl e) s'"
    and FieldsCons: "\<And>n s kv kvs y s1 ys s'. resolvePipelineReferences n d s (snd kv) = Some (Inr y, s1)
        \<Longrightarrow> Pv n s (snd kv) (Inr y) s1 \<Longrightarrow> resolveFields n d s1 kvs = Some (Inr ys, s')
        \<Longrightarrow> Pf n s1 kvs (Inr ys) s' \<Longrightarrow> Pf n s (kv # kvs) (Inr ((fst kv, y) # ys)) s'"
  shows "(resolvePipelineReferences n d s val = Some (res, s') \<longrightarrow> Pv n s val res s') \<and>
         (resolveElems n d s xs = Some (rs, s'') \<longrightarrow> Pe n s xs rs s'') \<and>
         (resolveFields n d s kvs = Some (rf, s''') \<longrightarrow> Pf n s kvs rf s''')"
proof -
  have elems: "Pe n s xs rs s'"
    if IH: "\<forall>s val res s'. resolvePipelineReferences n d s val = Some (res, s') \<longrightarrow> Pv n s val res s'"
      and run: "resolveElems n d s xs = Some (rs, s')" for n s xs rs s'
    using run
  proof (induction xs arbitrary: s rs s')
    case Nil
    then show ?case by (auto intro: ElemsNil)
  next
    case (Cons x xs)
    from Cons.prems show ?case
    proof (cases rule: resolveElems_ConsE)
      case (Fail e)
      with IH show ?thesis by (auto intro: ElemsFail)
    next
      case (RestFail y s1 e)
      with IH Cons.IH show ?thesis by (auto intro: ElemsRestFail)
    next
      case (Cons y s1 ys)
      with IH Cons.IH show ?thesis by (auto intro: ElemsCons)
    qed
  qed
  have fields: "Pf n s kvs rf s'"
    if IH: "\<forall>s val res s'. resolvePipelineReferences n d s val = Some (res, s') \<longrightarrow> Pv n s val res s'"
      and run: "resolveFields n d s kvs = Some (rf, s')" for n s kvs rf s'
    using run
  proof (induction kvs arbitrary: s rf s')
    case Nil
    then show ?case by (auto intro: FieldsNil)
  next
    case (Cons kv kvs)
    from Cons.prems show ?case
    proof (cases rule: resolveFields_ConsE)
      case (Fail e)
      with IH show ?thesis by (auto intro: FieldsFail)
    next
      case (RestFail y s1 e)
      with IH Cons.IH show ?thesis by (auto intro: FieldsRestFail)
    next
      case (Cons y s1 ys)
      with IH Cons.IH show ?thesis by (auto intro: FieldsCons)
    qed
  qed
  have vals: "Pv n s val res s'"
    if "resolvePipelineReferences n d s val = Some (res, s')" for n s val res s'
    using that
  proof (induction n arbitrary: s val res s')
    case 0
    then show ?case by simp
  next
    case (Suc n)
    from Suc.IH
    have IH: "\<forall>s val res s'. resolvePipelineReferences n d s val = Some (res, s') \<longrightarrow> Pv n s val res s'"
      by blast
    from Suc.prems show ?case
    proof (cases rule: resolve_SucE)
      case Leaf
      then show ?thesis by (simp add: assms(1))
    next
      case (Object kvs r)
      with fields [OF IH] show ?thesis by (auto intro: assms(2))
    next
      case (List v r)
      with elems [OF IH] show ?thesis by (auto intro: assms(3))
    next
      case (Cached v k r)
      then show ?thesis by (auto intro: assms(4))
    next
      case (Unknown v k)
      then show ?thesis by (auto intro: assms(5))
    next
      case (BadArgs v k operation e)
      then show ?thesis by (auto intro: assms(6))
    next
      case (ArgsFail v k operation args e)
      with IH show ?thesis by (auto intro: assms(7))
    next
      case (MarshalFail v k operation args ra e)
      with IH show ?thesis by (auto intro: assms(8))
    next
      case (DispatchFail v k operation args ra s1 bytes e)
      with IH show ?thesis by (auto intro: assms(9))
    next
      case (Dispatch v k operation args ra s1 bytes r s2)
      with IH show ?thesis by (auto intro: assms(10))
    qed
  qed
  from vals elems fields show ?thesis by blast
qed

subsection \<open>The tables under the resolver\<close>

lemma callDispatch_tables:
  assumes "callDispatch d s k m b = (r, s')"
  shows "PendingResults s' = PendingResults s" "PendingOperations s' = PendingOperations s"
    "NextExportID s' = NextExportID s" "Dispatched s' = Dispatched s @ [(k, m, b)]"
  using assms by (auto simp: callDispatch_def split: prod.splits)

lemma table_step_refl: "table_step s s"
  by (simp add: table_step_def)

lemma table_stepD:
  assumes "table_step s s'"
  shows "(PendingResults s' k = PendingResults s k \<and> PendingOperations s' k = PendingOperations s k) \<or>
          (PendingResults s k = None \<and> PendingOperations s k \<noteq> None \<and>
           PendingResults s' k \<noteq> None \<and> PendingOperations s' k = None)"
  using assms by (simp add: table_step_def)

lemma table_step_trans:
  assumes "table_step s s1" "table_step s1 s2"
  shows "table_step s s2"
  unfolding table_step_def
proof (intro conjI allI)
  show "NextExportID s2 = NextExportID s"
    using assms by (simp add: table_step_def)
  fix k
  from table_stepD [OF assms(1), of k] table_stepD [OF assms(2), of k]
  show "(PendingResults s2 k = PendingResults s k \<and> PendingOperations s2 k = PendingOperations s k) \<or>
          (PendingResults s k = None \<and> PendingOperations s k \<noteq> None \<and>
           PendingResults s2 k \<noteq> None \<and> PendingOperations s2 k = None)"
    by (elim disjE conjE) simp_all
qed

lemma table_step_call:
  assumes "table_step s s1" "callDispatch d s1 k m b = (r, s2)"
  shows "table_step s s2"
  using assms callDispatch_tables [OF assms(2)] by (simp add: table_step_def)

lemma table_step_store:
  assumes "table_step s s1" "PendingResults s k = None" "PendingOperations s k = Some operation"
    "callDispatch d s1 k m b = (r, s2)"
  shows "table_step s (s2\<lparr>PendingResults := (PendingResults s2)(k \<mapsto> x),
                 PendingOperations := (PendingOperations s2)(k := None)\<rparr>)"
  using assms callDispatch_tables [OF assms(4)] by (simp add: table_step_def)

lemma resolve_all_table_step:
  "(resolvePipelineReferences n d s val = Some (res, s') \<longrightarrow> table_step s s') \<and>
   (resolveElems n d s xs = Some (rs, s'') \<longrightarrow> table_step s s'') \<and>
   (resolveFields n d s kvs = Some (rf, s''') \<longrightarrow> table_step s s''')"
proof (rule resolve_all_induct [where Pv = "\<lambda>n s val res s'. table_step s s'"
      and Pe = "\<lambda>n s val res s'. table_step s s'" and Pf = "\<lambda>n s val res s'. table_step s s'"],
    goal_cases Leaf Object List Cached Unknown BadArgs ArgsFail MarshalFail DispatchFail Dispatch
      ElemsNil ElemsFail ElemsRestFail ElemsCons FieldsNil FieldsFail FieldsRestFail FieldsCons)
  case (DispatchFail n s v k operation args ra s1 bytes e s')
  then show ?case by (blast intro: table_step_call)
next
  case (Dispatch n s v k operation args ra s1 bytes r s2)
  then show ?case by (blast intro: table_step_store)
qed (blast intro: table_step_refl table_step_trans)+

lemma resolve_table_step:
  "resolvePipelineReferences n d s val = Some (res, s') \<Longrightarrow> table_step s s'"
  using resolve_all_table_step by blast

lemma resolveElems_table_step:
  "resolveElems n d s xs = Some (res, s') \<Longrightarrow> table_step s s'"
  using resolve_all_table_step by blast

lemma resolveFields_table_step:
  "resolveFields n d s kvs = Some (res, s') \<Longrightarrow> table_step s s'"
  using resolve_all_table_step by blast

subsection \<open>Cycles are never dispatched\<close>

lemma demands_leaf:
  assumes "demands s j val" "\<forall>v. val \<noteq> JArray v" "\<forall>v. val \<noteq> JObject v"
  shows False
  using assms by (cases rule: demands.cases) auto

lemma demands_ObjectD:
  assumes "demands s j (JObject kvs)"
  shows "\<exists>kv\<in>set kvs. demands s j (snd kv)"
  using assms by (cases rule: demands.cases) auto

lemma demands_ListD:
  assumes "demands s j (JArray v)" "pipelineRef v = None"
  shows "\<exists>x\<in>set v. demands s j x"
  using assms by (cases rule: demands.cases) auto

lemma demands_RefD:
  assumes "demands s j (JArray v)" "pipelineRef v = Some k"
  shows "k = j \<or> (PendingResults s k = None \<and>
    (\<exists>operation args. PendingOperations s k = Some operation \<and>
        Unmarshal (Args operation) = Inr args \<and> demands s j args))"
  using assms by (cases rule: demands.cases) auto

lemma demands_keeps:
  assumes "demands s j x" "keeps_doomed s j s'"
  shows "demands s' j x"
  using assms(1)
proof (induction rule: demands.induct)
  case (Via v k operation args)
  then have "doomed s j k" by (auto simp: doomed_def)
  with assms(2) Via have "PendingResults s' k = None" "PendingOperations s' k = Some operation"
    by (auto simp: keeps_doomed_def)
  with Via show ?case by (auto intro: demands.Via)
qed (auto intro: demands.intros)

lemma doomed_keeps:
  assumes "doomed s j k" "keeps_doomed s j s'"
  shows "doomed s' j k"
proof -
  from assms(1) obtain operation args where
    1: "PendingResults s k = None" "PendingOperations s k = Some operation"
       "Unmarshal (Args operation) = Inr args" "demands s j args"
    by (auto simp: doomed_def)
  from assms have "PendingResults s' k = None" "PendingOperations s' k = PendingOperations s k"
    by (auto simp: keeps_doomed_def)
  with 1 demands_keeps [OF 1(4) assms(2)] show ?thesis
    by (auto simp: doomed_def)
qed

lemma keeps_doomed_refl: "keeps_doomed s j s"
  by (simp add: keeps_doomed_def doomed_def)

lemma keeps_doomed_trans:
  assumes "keeps_doomed s j s1" "keeps_doomed s1 j s2"
  shows "keeps_doomed s j s2"
  unfolding keeps_doomed_def
proof (intro allI impI)
  fix k assume d: "doomed s j k"
  then have "doomed s1 j k" using assms(1) by (rule doomed_keeps)
  with assms d show "PendingResults s2 k = None \<and> PendingOperations s2 k = PendingOperations s k"
    by (simp add: keeps_doomed_def)
qed

lemma keeps_doomed_call:
  assumes "keeps_doomed s j s1" "callDispatch d s1 k m b = (r, s2)"
  shows "keeps_doomed s j s2"
  using assms callDispatch_tables [OF assms(2)] by (simp add: keeps_doomed_def)

lemma keeps_doomed_store:
  assumes "keeps_doomed s j s1" "callDispatch d s1 k m b = (r, s2)" "\<not> doomed s j k"
  shows "keeps_doomed s j (s2\<lparr>PendingResults := (PendingResults s2)(k \<mapsto> x),
                 PendingOperations := (PendingOperations s2)(k := None)\<rparr>)"
  using assms callDispatch_tables [OF assms(2)] by (auto simp: keeps_doomed_def)

text \<open>
  With a cycle through \<open>j\<close>, the resolver leaves every doomed id alone, and it returns an error
  (if it returns) on every value that demands \<open>j\<close>.
\<close>

lemma resolve_all_cyclic:
  "(resolvePipelineReferences n d s val = Some (res, s') \<longrightarrow>
      (doomed s j j \<longrightarrow> keeps_doomed s j s' \<and> (demands s j val \<longrightarrow> isl res))) \<and>
   (resolveElems n d s xs = Some (rs, s'') \<longrightarrow>
      (doomed s j j \<longrightarrow> keeps_doomed s j s'' \<and> ((\<exists>x\<in>set xs. demands s j x) \<longrightarrow> isl rs))) \<and>
   (resolveFields n d s kvs = Some (rf, s''') \<longrightarrow>
      (doomed s j j \<longrightarrow> keeps_doomed s j s''' \<and> ((\<exists>kv\<in>set kvs. demands s j (snd kv)) \<longrightarrow> isl rf)))"
proof (rule resolve_all_induct [where
      Pv = "\<lambda>n s val res s'. doomed s j j \<longrightarrow> keeps_doomed s j s' \<and> (demands s j val \<longrightarrow> isl res)"
      and Pe = "\<lambda>n s xs rs s'. doomed s j j \<longrightarrow> keeps_doomed s j s' \<and> ((\<exists>x\<in>set xs. demands s j x) \<longrightarrow> isl rs)"
      and Pf = "\<lambda>n s kvs rf s'. doomed s j j \<longrightarrow> keeps_doomed s j s' \<and> ((\<exists>kv\<in>set kvs. demands s j (snd kv)) \<longrightarrow> isl rf)"],
    goal_cases Leaf Object List Cached Unknown BadArgs ArgsFail MarshalFail DispatchFail Dispatch
      ElemsNil ElemsFail ElemsRestFail ElemsCons FieldsNil FieldsFail FieldsRestFail FieldsCons)
  case (Leaf n s val)
  then show ?case by (auto simp: keeps_doomed_refl dest: demands_leaf)
next
  case (Object n s kvs r s')
  then show ?case by (cases r) (auto dest: demands_ObjectD)
next
  case (List n s v r s')
  then show ?case by (cases r) (auto dest: demands_ListD)
next
  case (Cached n s v k r)
  then show ?case by (auto simp: keeps_doomed_refl doomed_def dest!: demands_RefD)
next
  case (Unknown n s v k)
  then show ?case by (simp add: keeps_doomed_refl)
next
  case (BadArgs n s v k operation e)
  then show ?case by (simp add: keeps_doomed_refl)
next
  case (ArgsFail n s v k operation args e s')
  then show ?case by simp
next
  case (MarshalFail n s v k operation args ra e s')
  then show ?case by simp
next
  case (DispatchFail n s v k operation args ra s1 bytes e s')
  then show ?case by (auto intro: keeps_doomed_call)
next
  case (Dispatch n s v k operation args ra s1 bytes r s2)
  show ?case
  proof (intro impI conjI)
    assume cyc: "doomed s j j"
    with Dispatch have k: "keeps_doomed s j s1" and nd: "\<not> demands s j args" by auto
    from nd Dispatch(2,3,4) have "\<not> doomed s j k" by (auto simp: doomed_def)
    with k Dispatch(8)
    show "keeps_doomed s j (s2\<lparr>PendingResults := (PendingResults s2)(k \<mapsto> r),
                 PendingOperations := (PendingOperations s2)(k := None)\<rparr>)"
      by (intro keeps_doomed_store)
    assume "demands s j (JArray v)"
    from demands_RefD [OF this Dispatch(1)] nd cyc Dispatch(2,3,4)
    show "isl (walkPath v r)" by (auto simp: doomed_def)
  qed
next
  case (ElemsNil n s)
  then show ?case by (simp add: keeps_doomed_refl)
next
  case (ElemsFail n s x xs e s')
  then show ?case by simp
next
  case (ElemsRestFail n s x xs y s1 e s')
  then show ?case by (auto intro: keeps_doomed_trans dest: doomed_keeps)
next
  case (ElemsCons n s x xs y s1 ys s')
  show ?case
  proof (intro impI conjI)
    assume cyc: "doomed s j j"
    with ElemsCons have k1: "keeps_doomed s j s1" and nx: "\<not> demands s j x" by auto
    from cyc k1 have "doomed s1 j j" by (rule doomed_keeps)
    with ElemsCons have k2: "keeps_doomed s1 j s'" and nxs: "\<forall>x\<in>set xs. \<not> demands s1 j x" by auto
    from k1 k2 show "keeps_doomed s j s'" by (rule keeps_doomed_trans)
    assume "\<exists>x\<in>set (x # xs). demands s j x"
    with nx nxs k1 show "isl (Inr (y # ys) :: string + jvalue list)"
      by (auto dest: demands_keeps)
  qed
next
  case (FieldsNil n s)
  then show ?case by (simp add: keeps_doomed_refl)
next
  case (FieldsFail n s kv kvs e s')
  then show ?case by simp
next
  case (FieldsRestFail n s kv kvs y s1 e s')
  then show ?case by (auto intro: keeps_doomed_trans dest: doomed_keeps)
next
  case (FieldsCons n s kv kvs y s1 ys s')
  show ?case
  proof (intro impI conjI)
    assume cyc: "doomed s j j"
    with FieldsCons have k1: "keeps_doomed s j s1" and nx: "\<not> demands s j (snd kv)" by auto
    from cyc k1 have "doomed s1 j j" by (rule doomed_keeps)
    with FieldsCons have k2: "keeps_doomed s1 j s'"
      and nxs: "\<forall>kv\<in>set kvs. \<not> demands s1 j (snd kv)" by auto
    from k1 k2 show "keeps_doomed s j s'" by (rule keeps_doomed_trans)
    assume "\<exists>kv\<in>set (kv # kvs). demands s j (snd kv)"
    with nx nxs k1 show "isl (Inr ((fst kv, y) # ys) :: string + (string \<times> jvalue) list)"
      by (auto dest: demands_keeps)
  qed
qed

lemma demands_back:
  assumes "demands s1 j x" "table_step s s1"
  shows "demands s j x"
  using assms(1)
proof (induction rule: demands.induct)
  case (Via v k operation args)
  from table_stepD [OF assms(2), of k] Via(2,3)
  have "PendingResults s k = None" "PendingOperations s k = Some operation" by auto
  with Via show ?case by (auto intro: demands.Via)
qed (auto intro: demands.intros)

text \<open>An id that the resolver moves into the cache was demanded by the value.\<close>

lemma resolve_all_moved_demanded:
  "(resolvePipelineReferences n d s val = Some (res, s') \<longrightarrow>
      (PendingResults s j = None \<longrightarrow> PendingResults s' j \<noteq> None \<longrightarrow> demands s j val)) \<and>
   (resolveElems n d s xs = Some (rs, s'') \<longrightarrow>
      (PendingResults s j = None \<longrightarrow> PendingResults s'' j \<noteq> None \<longrightarrow> (\<exists>x\<in>set xs. demands s j x))) \<and>
   (resolveFields n d s kvs = Some (rf, s''') \<longrightarrow>
      (PendingResults s j = None \<longrightarrow> PendingResults s''' j \<noteq> None \<longrightarrow> (\<exists>kv\<in>set kvs. demands s j (snd kv))))"
proof (rule resolve_all_induct [where
      Pv = "\<lambda>n s val res s'. PendingResults s j = None \<longrightarrow> PendingResults s' j \<noteq> None \<longrightarrow> demands s j val"
      and Pe = "\<lambda>n s xs rs s'. PendingResults s j = None \<longrightarrow> PendingResults s' j \<noteq> None \<longrightarrow> (\<exists>x\<in>set xs. demands s j x)"
      and Pf = "\<lambda>n s kvs rf s'. PendingResults s j = None \<longrightarrow> PendingResults s' j \<noteq> None \<longrightarrow> (\<exists>kv\<in>set kvs. demands s j (snd kv))"],
    goal_cases Leaf Object List Cached Unknown BadArgs ArgsFail MarshalFail DispatchFail Dispatch
      ElemsNil ElemsFail ElemsRestFail ElemsCons FieldsNil FieldsFail FieldsRestFail FieldsCons)
  case (Object n s kvs r s')
  then show ?case by (auto intro: demands.Field)
next
  case (List n s v r s')
  then show ?case by (auto intro: demands.Elem)
next
  case (ArgsFail n s v k operation args e s')
  then show ?case by (auto intro: demands.Via)
next
  case (MarshalFail n s v k operation args ra e s')
  then show ?case by (auto intro: demands.Via)
next
  case (DispatchFail n s v k operation args ra s1 bytes e s')
  with callDispatch_tables [OF DispatchFail(8)] show ?case by (auto intro: demands.Via)
next
  case (Dispatch n s v k operation args ra s1 bytes r s2)
  with callDispatch_tables [OF Dispatch(8)] show ?case
    by (cases "j = k") (auto intro: demands.Via demands.Ref)
next
  case (ElemsRestFail n s x xs y s1 e s')
  from resolve_table_step [OF ElemsRestFail(1)] have "table_step s s1" .
  with ElemsRestFail show ?case
    by (cases "PendingResults s1 j") (auto dest: demands_back)
next
  case (ElemsCons n s x xs y s1 ys s')
  from resolve_table_step [OF ElemsCons(1)] have "table_step s s1" .
  with ElemsCons show ?case
    by (cases "PendingResults s1 j") (auto dest: demands_back)
next
  case (FieldsRestFail n s kv kvs y s1 e s')
  from resolve_table_step [OF FieldsRestFail(1)] have "table_step s s1" .
  with FieldsRestFail show ?case
    by (cases "PendingResults s1 j") (auto dest: demands_back)
next
  case (FieldsCons n s kv kvs y s1 ys s')
  from resolve_table_step [OF FieldsCons(1)] have "table_step s s1" .
  with FieldsCons show ?case
    by (cases "PendingResults s1 j") (auto dest: demands_back)
qed auto

text \<open>No operation is dispatched while its own arguments are being resolved.\<close>

lemma resolve_own_args:
  assumes "PendingResults s k = None" "PendingOperations s k = Some operation"
    "Unmarshal (Args operation) = Inr args"
    "resolvePipelineReferences n d s args = Some (res, s1)"
  shows "PendingResults s1 k = None" "PendingOperations s1 k = Some operation"
    "demands s k args \<Longrightarrow> isl res"
proof -
  have *: "PendingResults s1 k = None"
  proof (cases "demands s k args")
    case True
    with assms have "doomed s k k" by (auto simp: doomed_def)
    with resolve_all_cyclic [of n d s args res s1 k] assms(4) show ?thesis
      by (auto simp: keeps_doomed_def)
  next
    case False
    with resolve_all_moved_demanded [of n d s args res s1 k] assms(1,4) show ?thesis by auto
  qed
  then show "PendingResults s1 k = None" .
  from table_stepD [OF resolve_table_step [OF assms(4)], of k] * assms(2)
  show "PendingOperations s1 k = Some operation" by auto
  assume "demands s k args"
  with assms have "doomed s k k" by (auto simp: doomed_def)
  with resolve_all_cyclic [of n d s args res s1 k] assms(4) \<open>demands s k args\<close> show "isl res"
    by auto
qed

subsection \<open>Each export is dispatched once\<close>

lemma calls_fresh_refl: "calls_fresh ok s s"
  by (simp add: calls_fresh_def)

lemma calls_fresh_weaken: "calls_fresh True s s' \<Longrightarrow> calls_fresh ok s s'"
  by (auto simp: calls_fresh_def)

lemma table_step_results:
  assumes "table_step s s'" "PendingResults s k = Some r"
  shows "PendingResults s' k = Some r"
  using table_stepD [OF assms(1), of k] assms(2) by auto

lemma table_step_uncached:
  assumes "table_step s s'" "PendingResults s' k = None"
  shows "PendingResults s k = None"
  using table_stepD [OF assms(1), of k] assms(2) by auto

lemma calls_fresh_seq:
  assumes 1: "calls_fresh True s s1" and 2: "calls_fresh ok s1 s2"
    and t1: "table_step s s1" and t2: "table_step s1 s2"
  shows "calls_fresh ok s s2"
proof -
  from 1 obtain c1 where c1: "Dispatched s1 = Dispatched s @ c1" "distinct (map fst c1)"
    "\<forall>k\<in>fst ` set c1. PendingResults s k = None \<and> PendingResults s1 k \<noteq> None"
    by (auto simp: calls_fresh_def)
  from 2 obtain c2 where c2: "Dispatched s2 = Dispatched s1 @ c2" "distinct (map fst c2)"
    "\<forall>k\<in>fst ` set c2. PendingResults s1 k = None \<and> (ok \<longrightarrow> PendingResults s2 k \<noteq> None)"
    by (auto simp: calls_fresh_def)
  have "Dispatched s2 = Dispatched s @ (c1 @ c2)" using c1 c2 by simp
  moreover have "fst ` set c1 \<inter> fst ` set c2 = {}"
    using c1(3) c2(3) by fastforce
  then have "distinct (map fst (c1 @ c2))"
    using c1(2) c2(2) by simp
  moreover have "\<forall>k\<in>fst ` set (c1 @ c2). PendingResults s k = None \<and> (ok \<longrightarrow> PendingResults s2 k \<noteq> None)"
  proof
    fix k assume "k \<in> fst ` set (c1 @ c2)"
    then consider "k \<in> fst ` set c1" | "k \<in> fst ` set c2" by auto
    then show "PendingResults s k = None \<and> (ok \<longrightarrow> PendingResults s2 k \<noteq> None)"
    proof cases
      case 1
      with c1(3) have "PendingResults s k = None" "PendingResults s1 k \<noteq> None" by auto
      with table_step_results [OF t2, of k] show ?thesis by auto
    next
      case 2
      with c2(3) have "PendingResults s1 k = None" "ok \<longrightarrow> PendingResults s2 k \<noteq> None" by auto
      with table_step_uncached [OF t1, of k] show ?thesis by auto
    qed
  qed
  ultimately show ?thesis unfolding calls_fresh_def by blast
qed

lemma calls_fresh_call:
  assumes 1: "calls_fresh True s s1" and u: "PendingResults s k = None" "PendingResults s1 k = None"
    and c: "callDispatch d s1 k m b = (r, s2)"
  shows "calls_fresh False s s2"
    and "calls_fresh True s (s2\<lparr>PendingResults := (PendingResults s2)(k \<mapsto> x),
                 PendingOperations := (PendingOperations s2)(k := None)\<rparr>)"
proof -
  from 1 obtain c1 where c1: "Dispatched s1 = Dispatched s @ c1" "distinct (map fst c1)"
    "\<forall>k\<in>fst ` set c1. PendingResults s k = None \<and> PendingResults s1 k \<noteq> None"
    by (auto simp: calls_fresh_def)
  note t = callDispatch_tables [OF c]
  have d: "Dispatched s2 = Dispatched s @ (c1 @ [(k, m, b)])" using c1 t by simp
  have dist: "distinct (map fst (c1 @ [(k, m, b)]))" using c1(2,3) u by auto
  from d dist c1(3) u show "calls_fresh False s s2"
    unfolding calls_fresh_def by (intro exI [of _ "c1 @ [(k, m, b)]"]) auto
  from d dist c1(3) u t show "calls_fresh True s (s2\<lparr>PendingResults := (PendingResults s2)(k \<mapsto> x),
                 PendingOperations := (PendingOperations s2)(k := None)\<rparr>)"
    unfolding calls_fresh_def by (intro exI [of _ "c1 @ [(k, m, b)]"]) auto
qed

lemma resolve_all_calls_fresh:
  "(resolvePipelineReferences n d s val = Some (res, s') \<longrightarrow> calls_fresh (\<not> isl res) s s') \<and>
   (resolveElems n d s xs = Some (rs, s'') \<longrightarrow> calls_fresh (\<not> isl rs) s s'') \<and>
   (resolveFields n d s kvs = Some (rf, s''') \<longrightarrow> calls_fresh (\<not> isl rf) s s''')"
proof (rule resolve_all_induct [where
      Pv = "\<lambda>n s val res s'. calls_fresh (\<not> isl res) s s'"
      and Pe = "\<lambda>n s xs rs s'. calls_fresh (\<not> isl rs) s s'"
      and Pf = "\<lambda>n s kvs rf s'. calls_fresh (\<not> isl rf) s s'"],
    goal_cases Leaf Object List Cached Unknown BadArgs ArgsFail MarshalFail DispatchFail Dispatch
      ElemsNil ElemsFail ElemsRestFail ElemsCons FieldsNil FieldsFail FieldsRestFail FieldsCons)
  case (Object n s kvs r s')
  then show ?case by (cases r) auto
next
  case (List n s v r s')
  then show ?case by (cases r) auto
next
  case (MarshalFail n s v k operation args ra e s')
  then show ?case by (auto intro: calls_fresh_weaken)
next
  case (DispatchFail n s v k operation args ra s1 bytes e s')
  from DispatchFail(6) have "calls_fresh True s s1" by simp
  from calls_fresh_call(1) [OF this DispatchFail(2) resolve_own_args(1) [OF DispatchFail(2,3,4,5)]
      DispatchFail(8)]
  show ?case by simp
next
  case (Dispatch n s v k operation args ra s1 bytes r s2)
  from Dispatch(6) have "calls_fresh True s s1" by simp
  from calls_fresh_call(2) [OF this Dispatch(2) resolve_own_args(1) [OF Dispatch(2,3,4,5)]
      Dispatch(8)]
  show ?case by (rule calls_fresh_weaken)
next
  case (ElemsRestFail n s x xs y s1 e s')
  from ElemsRestFail(2) have "calls_fresh True s s1" by simp
  from calls_fresh_seq [OF this ElemsRestFail(4) resolve_table_step [OF ElemsRestFail(1)]
      resolveElems_table_step [OF ElemsRestFail(3)]]
  show ?case .
next
  case (ElemsCons n s x xs y s1 ys s')
  from ElemsCons(2) have "calls_fresh True s s1" by simp
  from calls_fresh_seq [OF this ElemsCons(4) resolve_table_step [OF ElemsCons(1)]
      resolveElems_table_step [OF ElemsCons(3)]]
  show ?case by simp
next
  case (FieldsRestFail n s kv kvs y s1 e s')
  from FieldsRestFail(2) have "calls_fresh True s s1" by simp
  from calls_fresh_seq [OF this FieldsRestFail(4) resolve_table_step [OF FieldsRestFail(1)]
      resolveFields_table_step [OF FieldsRestFail(3)]]
  show ?case .
next
  case (FieldsCons n s kv kvs y s1 ys s')
  from FieldsCons(2) have "calls_fresh True s s1" by simp
  from calls_fresh_seq [OF this FieldsCons(4) resolve_table_step [OF FieldsCons(1)]
      resolveFields_table_step [OF FieldsCons(3)]]
  show ?case by simp
qed (auto simp: calls_fresh_refl)

lemma resolve_calls_fresh:
  "resolvePipelineReferences n d s val = Some (res, s') \<Longrightarrow> calls_fresh (\<not> isl res) s s'"
  using resolve_all_calls_fresh by blast

subsection \<open>Case analysis of a pull\<close>

lemma handlePullE [consumes 1, case_names StoredError StoredList StoredOther NotFound BadArgs
    ArgsFail MarshalFail DispatchFail DispatchList DispatchOther]:
  assumes "handlePull n d s i = Some (resp, s')"
  obtains
    (StoredError) r where "PendingResults s i = Some r" "isErrorArray r"
      "resp = JArray [JString ''reject'', JNumber (of_int i), r]"
      "s' = s\<lparr>PendingResults := (PendingResults s)(i := None)\<rparr>"
  | (StoredList) arr where "PendingResults s i = Some (JArray arr)" "\<not> isErrorArray (JArray arr)"
      "resp = JArray [JString ''resolve'', JNumber (of_int i), JArray [JArray arr]]"
      "s' = s\<lparr>PendingResults := (PendingResults s)(i := None)\<rparr>"
  | (StoredOther) r where "PendingResults s i = Some r" "\<forall>arr. r \<noteq> JArray arr"
      "resp = JArray [JString ''resolve'', JNumber (of_int i), r]"
      "s' = s\<lparr>PendingResults := (PendingResults s)(i := None)\<rparr>"
  | (NotFound) "PendingResults s i = None" "PendingOperations s i = None"
      "resp = JArray [JString ''reject'', JNumber (of_int i),
                JArray [JString ''error'', JString ''ExportNotFound'', JString ''Export ID not found'']]"
      "s' = s"
  | (BadArgs) operation e where "PendingResults s i = None" "PendingOperations s i = Some operation"
      "Unmarshal (Args operation) = Inl e"
      "resp = createErrorResponse i ''ArgumentError'' e" "s' = s"
  | (ArgsFail) operation args e where "PendingResults s i = None"
      "PendingOperations s i = Some operation" "Unmarshal (Args operation) = Inr args"
      "resolvePipelineReferences n d s args = Some (Inl e, s')"
      "resp = createErrorResponse i ''PipelineError'' e"
  | (MarshalFail) operation args ra e where "PendingResults s i = None"
      "PendingOperations s i = Some operation" "Unmarshal (Args operation) = Inr args"
      "resolvePipelineReferences n d s args = Some (Inr ra, s')" "Marshal ra = Inl e"
      "resp = createErrorResponse i ''SerializationError'' e"
  | (DispatchFail) operation args ra s1 bytes e s2 where "PendingResults s i = None"
      "PendingOperations s i = Some operation" "Unmarshal (Args operation) = Inr args"
      "resolvePipelineReferences n d s args = Some (Inr ra, s1)" "Marshal ra = Inr bytes"
      "callDispatch d s1 i (Method operation) bytes = (Inl e, s2)"
      "resp = createErrorResponse i ''MethodError'' e"
      "s' = s2\<lparr>PendingOperations := (PendingOperations s2)(i := None)\<rparr>"
  | (DispatchList) operation args ra s1 bytes arr s2 where "PendingResults s i = None"
      "PendingOperations s i = Some operation" "Unmarshal (Args operation) = Inr args"
      "resolvePipelineReferences n d s args = Some (Inr ra, s1)" "Marshal ra = Inr bytes"
      "callDispatch d s1 i (Method operation) bytes = (Inr (JArray arr), s2)"
      "resp = JArray [JString ''resolve'', JNumber (of_int i), JArray [JArray arr]]"
      "s' = s2\<lparr>PendingOperations := (PendingOperations s2)(i := None),
                 PendingResults := (PendingResults s2)(i \<mapsto> JArray arr)\<rparr>"
  | (DispatchOther) operation args ra s1 bytes r s2 where "PendingResults s i = None"
      "PendingOperations s i = Some operation" "Unmarshal (Args operation) = Inr args"
      "resolvePipelineReferences n d s args = Some (Inr ra, s1)" "Marshal ra = Inr bytes"
      "callDispatch d s1 i (Method operation) bytes = (Inr r, s2)" "\<forall>arr. r \<noteq> JArray arr"
      "resp = JArray [JString ''resolve'', JNumber (of_int i), r]"
      "s' = s2\<lparr>PendingOperations := (PendingOperations s2)(i := None),
                 PendingResults := (PendingResults s2)(i \<mapsto> r)\<rparr>"
proof (cases "PendingResults s i")
  case (Some r)
  show ?thesis
  proof (cases "isErrorArray r")
    case True
    with assms Some have "resp = JArray [JString ''reject'', JNumber (of_int i), r] \<and>
        s' = s\<lparr>PendingResults := (PendingResults s)(i := None)\<rparr>"
      by (auto simp: handlePull_def Let_def)
    with Some True show ?thesis by (intro StoredError [of r]) auto
  next
    case False
    show ?thesis
    proof (cases "\<exists>arr. r = JArray arr")
      case True
      then obtain arr where r: "r = JArray arr" by blast
      with assms Some False
      have "resp = JArray [JString ''resolve'', JNumber (of_int i), JArray [JArray arr]] \<and>
        s' = s\<lparr>PendingResults := (PendingResults s)(i := None)\<rparr>"
        by (auto simp: handlePull_def Let_def)
      with Some False r show ?thesis by (intro StoredList [of arr]) auto
    next
      case False
      with assms Some \<open>\<not> isErrorArray r\<close>
      have "resp = JArray [JString ''resolve'', JNumber (of_int i), r] \<and>
        s' = s\<lparr>PendingResults := (PendingResults s)(i := None)\<rparr>"
        by (cases r) (auto simp: handlePull_def Let_def)
      with Some False show ?thesis by (intro StoredOther [of r]) auto
    qed
  qed
next
  case None
  note uncached = None
  show ?thesis
  proof (cases "PendingOperations s i")
    case None
    with assms uncached
    have "resp = JArray [JString ''reject'', JNumber (of_int i),
                JArray [JString ''error'', JString ''ExportNotFound'', JString ''Export ID not found'']] \<and>
      s' = s"
      by (auto simp: handlePull_def)
    with uncached None show ?thesis by (intro NotFound) auto
  next
    case (Some operation)
    note pending = Some
    show ?thesis
    proof (cases "Unmarshal (Args operation)")
      case (Inl e)
      with assms uncached pending
      have "resp = createErrorResponse i ''ArgumentError'' e \<and> s' = s"
        by (auto simp: handlePull_def)
      with uncached pending Inl show ?thesis by (intro BadArgs [of operation e]) auto
    next
      case (Inr args)
      note um = Inr
      from assms uncached pending um
      obtain r1 s1 where inner: "resolvePipelineReferences n d s args = Some (r1, s1)"
        by (cases "resolvePipelineReferences n d s args") (auto simp: handlePull_def)
      show ?thesis
      proof (cases r1)
        case (Inl e)
        with assms uncached pending um inner
        have "resp = createErrorResponse i ''PipelineError'' e \<and> s' = s1"
          by (auto simp: handlePull_def)
        with uncached pending um inner Inl show ?thesis
          by (intro ArgsFail [of operation args e]) auto
      next
        case (Inr ra)
        note ok = Inr
        show ?thesis
        proof (cases "Marshal ra")
          case (Inl e)
          with assms uncached pending um inner ok
          have "resp = createErrorResponse i ''SerializationError'' e \<and> s' = s1"
            by (auto simp: handlePull_def)
          with uncached pending um inner ok Inl show ?thesis
            by (intro MarshalFail [of operation args ra e]) auto
        next
          case (Inr bytes)
          note m = Inr
          obtain r2 s2 where call: "callDispatch d s1 i (Method operation) bytes = (r2, s2)"
            by (cases "callDispatch d s1 i (Method operation) bytes")
          show ?thesis
          proof (cases r2)
            case (Inl e)
            with assms uncached pending um inner ok m call
            have "resp = createErrorResponse i ''MethodError'' e \<and>
              s' = s2\<lparr>PendingOperations := (PendingOperations s2)(i := None)\<rparr>"
              by (auto simp: handlePull_def Let_def)
            with uncached pending um inner ok m call Inl show ?thesis
              by (intro DispatchFail [of operation args ra s1 bytes e s2]) auto
          next
            case (Inr r)
            note res = Inr
            show ?thesis
            proof (cases "\<exists>arr. r = JArray arr")
              case True
              then obtain arr where r: "r = JArray arr" by blast
              with assms uncached pending um inner ok m call res
              have "resp = JArray [JString ''resolve'', JNumber (of_int i), JArray [JArray arr]] \<and>
                s' = s2\<lparr>PendingOperations := (PendingOperations s2)(i := None),
                       PendingResults := (PendingResults s2)(i \<mapsto> JArray arr)\<rparr>"
                by (auto simp: handlePull_def Let_def)
              with uncached pending um inner ok m call res r show ?thesis
                by (intro DispatchList [of operation args ra s1 bytes arr s2]) auto
            next
              case False
              with assms uncached pending um inner ok m call res
              have "resp = JArray [JString ''resolve'', JNumber (of_int i), r] \<and>
                s' = s2\<lparr>PendingOperations := (PendingOperations s2)(i := None),
                       PendingResults := (PendingResults s2)(i \<mapsto> r)\<rparr>"
                by (cases r) (auto simp: handlePull_def Let_def)
              with uncached pending um inner ok m call res False show ?thesis
                by (intro DispatchOther [of operation args ra s1 bytes r s2]) auto
            qed
          qed
        qed
      qed
    qed
  qed
qed

lemma handlePull_calls_distinct:
  assumes "handlePull n d s i = Some (resp, s')"
  shows "\<exists>calls. Dispatched s' = Dispatched s @ calls \<and> distinct (map fst calls)"
proof -
  have fresh: "\<exists>calls. Dispatched s1 = Dispatched s @ calls \<and> distinct (map fst calls)"
    if "calls_fresh ok s s1" for ok s1
    using that by (auto simp: calls_fresh_def)
  have final: "\<exists>calls. Dispatched s2 = Dispatched s @ calls \<and> distinct (map fst calls)"
    if "PendingResults s i = None" "PendingOperations s i = Some operation"
      "Unmarshal (Args operation) = Inr args"
      "resolvePipelineReferences n d s args = Some (Inr ra, s1)"
      "callDispatch d s1 i m b = (r, s2)" for operation args ra s1 m b r s2
  proof -
    from resolve_calls_fresh [OF that(4)] have "calls_fresh True s s1" by simp
    from calls_fresh_call(1) [OF this that(1) resolve_own_args(1) [OF that(1,2,3,4)] that(5)]
    show ?thesis by (rule fresh)
  qed
  from assms show ?thesis
  proof (cases rule: handlePullE)
    case (ArgsFail operation args e)
    from resolve_calls_fresh [OF ArgsFail(4)] show ?thesis by (rule fresh)
  next
    case (MarshalFail operation args ra e)
    from resolve_calls_fresh [OF MarshalFail(4)] show ?thesis by (rule fresh)
  next
    case (DispatchFail operation args ra s1 bytes e s2)
    from final [OF DispatchFail(1,2,3,4,6)] DispatchFail(8) show ?thesis by simp
  next
    case (DispatchList operation args ra s1 bytes arr s2)
    from final [OF DispatchList(1,2,3,4,6)] DispatchList(8) show ?thesis by simp
  next
    case (DispatchOther operation args ra s1 bytes r s2)
    from final [OF DispatchOther(1,2,3,4,6)] DispatchOther(9) show ?thesis by simp
  qed simp_all
qed

subsection \<open>Paths, pushes and invariants\<close>

text \<open>The definitions to unfold when a concrete session is run.\<close>

lemmas model_defs = pushCall_def pull_def NewSessionData_def HandleMessage_def handlePush_def
  handlePull_def Marshal_def go_int_def exampleTarget_def callDispatch_def isErrorArray_def
  pipelineRef_def walkPath_def createErrorResponse_def

lemma go_int_of_int [simp]: "go_int (of_int i) = i"
  by (simp add: go_int_def)




















subsection \<open>The answers of a pull\<close>

lemma handlePull_stored:
  assumes "PendingResults s i = Some r"
  shows "handlePull n d s i =
    Some (if isErrorArray r then JArray [JString ''reject'', JNumber (of_int i), r]
          else JArray [JString ''resolve'', JNumber (of_int i), wrappedValue r],
          s\<lparr>PendingResults := (PendingResults s)(i := None)\<rparr>)"
  using assms by (cases r) (simp_all add: handlePull_def Let_def wrappedValue_def)

lemma handlePull_unknown:
  assumes "PendingResults s i = None" "PendingOperations s i = None"
  shows "handlePull n d s i = Some (notFound i, s)"
  using assms by (simp add: handlePull_def notFound_def)


lemma reject_not_resolve [simp]:
  "JArray [JString ''reject'', x, y] \<noteq> JArray (JString ''resolve'' # payload)"
  "createErrorResponse i kind e \<noteq> JArray (JString ''resolve'' # payload)"
  "notFound i \<noteq> JArray (JString ''resolve'' # payload)"
  by (simp_all add: createErrorResponse_def notFound_def)

lemma distinct_count_list:
  "distinct xs \<Longrightarrow> count_list xs k \<le> 1"
  by (induction xs) (auto simp: count_list_0_iff)

lemmas eval_defs = model_defs notFound_def wrappedValue_def errNonExistentExport_def itoa_def
  nat_digits.simps

lemma helloSession_pull:
  "handlePull (Suc (Suc 0)) exampleTarget helloSession 1 =
     Some (JArray [JString ''resolve'', JNumber 1, JString ''Hello, World!''], helloSessionPulled)"
  by (simp add: helloSession_def helloSessionPulled_def eval_defs)


lemma diamondSession_pull:
  "handlePull (Suc (Suc (Suc 0))) exampleTarget diamondSession 2 =
     Some (JArray [JString ''resolve'', JNumber 2, JString ''Hello, World!''], diamondSessionPulled)"
  by (simp add: diamondSession_def diamondSessionPulled_def exampleNotes_def eval_defs)

subsection \<open>More depth changes nothing\<close>





subsection \<open>The resolver returns when references go back\<close>













subsection \<open>A reference to oneself\<close>



section \<open>The claims\<close>

subsection \<open>Path walking\<close>



subsection \<open>Release and abort\<close>

text \<open>
  Claim C9. A release message and an abort message, whatever their payload, leave the session
  as it is (the counter, both tables, the target and the record of dispatcher calls) and
  produce no response; what the transport loop does with the messages that follow is what it
  would have done without them.
\<close>

theorem release_abort_change_nothing:
  "HandleMessage n d s (JArray (JString ''release'' # payload)) = Some (Inr None, s) \<and>
   HandleMessage n d s (JArray (JString ''abort'' # payload)) = Some (Inr None, s) \<and>
   handleMessages n d s (JArray (JString ''release'' # payload) # rest) = handleMessages n d s rest \<and>
   handleMessages n d s (JArray (JString ''abort'' # payload) # rest) = handleMessages n d s rest"
proof -
  have 1: "HandleMessage n d s (JArray (JString ''release'' # payload)) = Some (Inr None, s)"
    by (simp add: HandleMessage_def handleRelease_def split: jvalue.splits)
  have 2: "HandleMessage n d s (JArray (JString ''abort'' # payload)) = Some (Inr None, s)"
    by (simp add: HandleMessage_def handleAbort_def)
  have 3: "handleMessages n d s (m # rest) = handleMessages n d s rest"
    if "HandleMessage n d s m = Some (Inr None, s)" for m
    using that by (cases "handleMessages n d s rest") auto
  from 1 2 3 [OF 1] 3 [OF 2] show ?thesis by simp
qed

theorem release_abort_change_nothing_witness:
  "handleMessages (Suc (Suc 0)) exampleTarget (NewSessionData ())
     [JArray [JString ''release'', JNumber 1, JNumber 1], JArray [JString ''abort'', JString ''bye'']] =
   Some ([], NewSessionData ())"
  using release_abort_change_nothing [where n = "Suc (Suc 0)" and d = exampleTarget
      and s = "NewSessionData ()" and payload = "[JNumber 1, JNumber 1]"
      and rest = "[JArray [JString ''abort'', JString ''bye'']]"]
    release_abort_change_nothing [where n = "Suc (Suc 0)" and d = exampleTarget
      and s = "NewSessionData ()" and payload = "[JString ''bye'']" and rest = "[]"]
  by simp

subsection \<open>Pushes and export ids\<close>





subsection \<open>The two tables\<close>



subsection \<open>Resolve messages\<close>



subsection \<open>What a pull leaves behind\<close>

text \<open>
  Claim C1, as the spec has it, fails: a pull that dispatches with success stores the result
  (``Store the result for future reference'' in \<^verbatim>\<open>handlePull\<close>), so the id is in
  \<open>PendingResults\<close> afterwards, and the next pull of the same id answers from there. In
  scenario A of the spec followed by two more pulls of id 1, the second pull is answered with
  the same resolve message; only the third is answered with ExportNotFound.
\<close>

theorem pull_success_forgets_id_counterexample:
  "map_option fst (handleMessages (Suc (Suc 0)) exampleTarget (NewSessionData ())
      [pushCall ''hello'' (JArray [JString ''World'']), pull 1, pull 1, pull 1]) =
   Some [JArray [JString ''resolve'', JNumber 1, JString ''Hello, World!''],
         JArray [JString ''resolve'', JNumber 1, JString ''Hello, World!''],
         notFound 1]"
  by (simp add: eval_defs)

text \<open>
  Claim C1, amended. A pull of an id \<open>i\<close> that is pending and not cached, and that is answered
  with a resolve message, takes \<open>i\<close> out of \<open>PendingOperations\<close> and puts the dispatcher's
  result \<open>r\<close> into \<open>PendingResults\<close>. A second pull of \<open>i\<close> answers from the cache (with the
  same resolve message, or with a reject when \<open>r\<close> is an error value) and removes the entry;
  the pull after that is answered with ExportNotFound.
\<close>

theorem pull_success_keeps_result:
  "PendingResults s i = None \<and> PendingOperations s i = Some operation \<and>
   handlePull n d s i = Some (JArray (JString ''resolve'' # payload), s') \<longrightarrow>
     (\<exists>r. payload = [JNumber (of_int i), wrappedValue r] \<and>
          PendingOperations s' i = None \<and> PendingResults s' i = Some r \<and>
          handlePull m d s' i =
            Some (if isErrorArray r then JArray [JString ''reject'', JNumber (of_int i), r]
                  else JArray [JString ''resolve'', JNumber (of_int i), wrappedValue r],
                  s'\<lparr>PendingResults := (PendingResults s')(i := None)\<rparr>) \<and>
          handlePull m d (s'\<lparr>PendingResults := (PendingResults s')(i := None)\<rparr>) i =
            Some (notFound i, s'\<lparr>PendingResults := (PendingResults s')(i := None)\<rparr>))"
proof
  assume a: "PendingResults s i = None \<and> PendingOperations s i = Some operation \<and>
   handlePull n d s i = Some (JArray (JString ''resolve'' # payload), s')"
  then have run: "handlePull n d s i = Some (JArray (JString ''resolve'' # payload), s')" by simp
  have "\<exists>r. payload = [JNumber (of_int i), wrappedValue r] \<and>
          PendingOperations s' i = None \<and> PendingResults s' i = Some r"
    using run
  proof (cases rule: handlePullE)
    case (DispatchList operation args ra sx bytes arr sy)
    then show ?thesis by (intro exI [of _ "JArray arr"]) (auto simp: wrappedValue_def)
  next
    case (DispatchOther operation args ra sx bytes r sy)
    then have "wrappedValue r = r" by (cases r) (simp_all add: wrappedValue_def)
    with DispatchOther show ?thesis by (intro exI [of _ r]) auto
  qed (use a in \<open>simp_all add: createErrorResponse_def\<close>)
  then obtain r where r: "payload = [JNumber (of_int i), wrappedValue r]"
    "PendingOperations s' i = None" "PendingResults s' i = Some r" by blast
  let ?s'' = "s'\<lparr>PendingResults := (PendingResults s')(i := None)\<rparr>"
  from r have "PendingResults ?s'' i = None" "PendingOperations ?s'' i = None" by simp_all
  from handlePull_unknown [OF this] handlePull_stored [OF r(3)] r
  show "\<exists>r. payload = [JNumber (of_int i), wrappedValue r] \<and>
          PendingOperations s' i = None \<and> PendingResults s' i = Some r \<and>
          handlePull m d s' i =
            Some (if isErrorArray r then JArray [JString ''reject'', JNumber (of_int i), r]
                  else JArray [JString ''resolve'', JNumber (of_int i), wrappedValue r],
                  s'\<lparr>PendingResults := (PendingResults s')(i := None)\<rparr>) \<and>
          handlePull m d (s'\<lparr>PendingResults := (PendingResults s')(i := None)\<rparr>) i =
            Some (notFound i, s'\<lparr>PendingResults := (PendingResults s')(i := None)\<rparr>)"
    by (intro exI [of _ r]) simp
qed

theorem pull_success_keeps_result_witness:
  "handlePull (Suc (Suc 0)) exampleTarget helloSession 1 =
     Some (JArray [JString ''resolve'', JNumber 1, JString ''Hello, World!''], helloSessionPulled) \<and>
   PendingResults helloSessionPulled 1 = Some (JString ''Hello, World!'') \<and>
   PendingOperations helloSessionPulled 1 = None \<and>
   map_option fst (handlePull 0 exampleTarget helloSessionPulled 1) =
     Some (JArray [JString ''resolve'', JNumber 1, JString ''Hello, World!''])"
  using pull_success_keeps_result [where s = helloSession and i = 1 and n = "Suc (Suc 0)"
      and d = exampleTarget and s' = helloSessionPulled and m = 0
      and operation = "\<lparr>Method = ''hello'', Args = Encoded (JArray [JString ''World''])\<rparr>"
      and payload = "[JNumber 1, JString ''Hello, World!'']"]
    helloSession_pull
  by (auto simp: helloSession_def helloSessionPulled_def wrappedValue_def isErrorArray_def)




subsection \<open>Dispatching once\<close>

text \<open>
  Claim C4. While one pull is handled, the dispatcher is called at most once for each export
  id: in the calls that the pull adds to the record, every id occurs at most once, however
  often the arguments refer to it. The same holds for the resolver alone; each id it
  dispatches was not cached before, and when the resolver succeeds each such id has moved from
  \<open>PendingOperations\<close> to \<open>PendingResults\<close>. A reference to an id that is cached is answered
  from the cache and leaves the session, and so the record of calls, as it is.
\<close>

theorem pull_dispatches_each_export_once:
  "(handlePull n d s i = Some (resp, s') \<longrightarrow>
      (\<exists>calls. Dispatched s' = Dispatched s @ calls \<and>
         (\<forall>k. count_list (map fst calls) k \<le> 1))) \<and>
   (resolvePipelineReferences n d s val = Some (res, sr) \<longrightarrow>
      (\<exists>calls. Dispatched sr = Dispatched s @ calls \<and>
         (\<forall>k. count_list (map fst calls) k \<le> 1) \<and>
         (\<forall>k\<in>fst ` set calls. PendingResults s k = None \<and>
            (\<not> isl res \<longrightarrow> PendingOperations s k \<noteq> None \<and>
               PendingResults sr k \<noteq> None \<and> PendingOperations sr k = None)))) \<and>
   (pipelineRef v = Some j \<and> PendingResults s j = Some r \<longrightarrow>
      resolvePipelineReferences (Suc n) d s (JArray v) = Some (walkPath v r, s))"
proof (intro conjI impI)
  assume "handlePull n d s i = Some (resp, s')"
  from handlePull_calls_distinct [OF this]
  show "\<exists>calls. Dispatched s' = Dispatched s @ calls \<and> (\<forall>k. count_list (map fst calls) k \<le> 1)"
    by (blast intro: distinct_count_list)
next
  assume run: "resolvePipelineReferences n d s val = Some (res, sr)"
  from resolve_calls_fresh [OF this] obtain calls where
    c: "Dispatched sr = Dispatched s @ calls" "distinct (map fst calls)"
    "\<forall>k\<in>fst ` set calls. PendingResults s k = None \<and> (\<not> isl res \<longrightarrow> PendingResults sr k \<noteq> None)"
    by (auto simp: calls_fresh_def)
  have b: "\<forall>k\<in>fst ` set calls. PendingResults s k = None \<and>
            (\<not> isl res \<longrightarrow> PendingOperations s k \<noteq> None \<and>
               PendingResults sr k \<noteq> None \<and> PendingOperations sr k = None)"
  proof
    fix k assume "k \<in> fst ` set calls"
    with c(3) table_stepD [OF resolve_table_step [OF run], of k]
    show "PendingResults s k = None \<and>
            (\<not> isl res \<longrightarrow> PendingOperations s k \<noteq> None \<and>
               PendingResults sr k \<noteq> None \<and> PendingOperations sr k = None)"
      by auto
  qed
  from c(2) have cnt: "\<forall>k. count_list (map fst calls) k \<le> 1"
    by (blast intro: distinct_count_list)
  show "\<exists>calls. Dispatched sr = Dispatched s @ calls \<and>
         (\<forall>k. count_list (map fst calls) k \<le> 1) \<and>
         (\<forall>k\<in>fst ` set calls. PendingResults s k = None \<and>
            (\<not> isl res \<longrightarrow> PendingOperations s k \<noteq> None \<and>
               PendingResults sr k \<noteq> None \<and> PendingOperations sr k = None))"
  proof (intro exI conjI)
    show "Dispatched sr = Dispatched s @ calls" by (rule c(1))
    show "\<forall>k. count_list (map fst calls) k \<le> 1" by (rule cnt)
    show "\<forall>k\<in>fst ` set calls. PendingResults s k = None \<and>
            (\<not> isl res \<longrightarrow> PendingOperations s k \<noteq> None \<and>
               PendingResults sr k \<noteq> None \<and> PendingOperations sr k = None)" by (rule b)
  qed
next
  assume "pipelineRef v = Some j \<and> PendingResults s j = Some r"
  then show "resolvePipelineReferences (Suc n) d s (JArray v) = Some (walkPath v r, s)"
    by simp
qed

text \<open>
  Export 2 refers to export 1 twice, once with a path: one call for 1, then one for 2.
\<close>

theorem pull_dispatches_each_export_once_witness:
  "handlePull (Suc (Suc (Suc 0))) exampleTarget diamondSession 2 =
     Some (JArray [JString ''resolve'', JNumber 2, JString ''Hello, World!''], diamondSessionPulled) \<and>
   map fst (Dispatched diamondSessionPulled) = [1, 2] \<and>
   (\<exists>calls. Dispatched diamondSessionPulled = Dispatched diamondSession @ calls \<and>
      (\<forall>k. count_list (map fst calls) k \<le> 1))"
  using pull_dispatches_each_export_once [where n = "Suc (Suc (Suc 0))" and d = exampleTarget
      and s = diamondSession and i = 2 and s' = diamondSessionPulled
      and resp = "JArray [JString ''resolve'', JNumber 2, JString ''Hello, World!'']"
      and val = JNull and res = "Inr JNull" and sr = diamondSession and v = "[]" and j = 0 and r = JNull]
    diamondSession_pull
  by (simp add: diamondSessionPulled_def)

subsection \<open>Cycles\<close>




end
